theory Spec2Isabelle
  imports Main "HOL-Library.AList"
begin

section \<open>Values the bridge handles\<close>

text \<open>
  The bridge is a Node.js program. Its strings are modelled as \<open>string\<close>; a character
  stands for one code unit in the range 0..255, which covers every frame written in
  ASCII or Latin-1. \<open>Date.now()\<close> is an \<open>int\<close> (milliseconds).
\<close>

definition newline :: char where
  "newline = CHR 0x0A"

text \<open>
  \<open>String.prototype.trim\<close> strips white space and line terminators from both ends.
  Among the code units 0..255 these are TAB, LF, VT, FF, CR, SPACE and NBSP.
\<close>

definition is_space :: "char \<Rightarrow> bool" where
  "is_space c = (c = CHR 0x09 \<or> c = CHR 0x0A \<or> c = CHR 0x0B \<or> c = CHR 0x0C
     \<or> c = CHR 0x0D \<or> c = CHR 0x20 \<or> c = CHR 0xA0)"

definition trim :: "string \<Rightarrow> string" where
  "trim s = rev (dropWhile is_space (rev (dropWhile is_space s)))"

text \<open>\<open>message.endsWith("\n")\<close>\<close>

definition endsWith_newline :: "string \<Rightarrow> bool" where
  "endsWith_newline s = (case rev s of [] \<Rightarrow> False | c # _ \<Rightarrow> c = newline)"

text \<open>
  The result of \<open>JSON.parse\<close>. An object is the list of its members in the order of
  the text; where a name is repeated the last member wins, as in JavaScript. Numbers
  are the integral ones.
\<close>

datatype json =
    JNull
  | JBool bool
  | JNum int
  | JStr string
  | JArr "json list"
  | JObj "(string \<times> json) list"

text \<open>
  \<open>v.name\<close> for a value \<open>v\<close> other than \<open>null\<close> and a name that no prototype
  defines (\<open>id\<close>, \<open>method\<close>, \<open>error\<close>, \<open>message\<close>): \<open>None\<close> is \<open>undefined\<close>.
\<close>

fun member :: "json \<Rightarrow> string \<Rightarrow> json option" where
  "member (JObj kvs) name = map_of (rev kvs) name"
| "member _ name = None"

text \<open>JavaScript truthiness, and truthiness of a possibly undefined value.\<close>

fun truthy :: "json \<Rightarrow> bool" where
  "truthy JNull = False"
| "truthy (JBool b) = b"
| "truthy (JNum n) = (n \<noteq> 0)"
| "truthy (JStr s) = (s \<noteq> [])"
| "truthy (JArr xs) = True"
| "truthy (JObj kvs) = True"

definition truthy_opt :: "json option \<Rightarrow> bool" where
  "truthy_opt v = (case v of None \<Rightarrow> False | Some x \<Rightarrow> truthy x)"

text \<open>
  Whether converting a parsed value to a string (a template literal, \<open>String(v)\<close>)
  returns: an object that has a member of its own named \<open>toString\<close> has lost the
  inherited method, and the conversion throws a TypeError; an array joins the
  conversions of its elements, \<open>null\<close> giving the empty string.
\<close>

fun stringifies :: "json \<Rightarrow> bool" where
  "stringifies (JObj kvs) = (map_of kvs ''toString'' = None)"
| "stringifies (JArr xs) = list_all stringifies xs"
| "stringifies _ = True"

section \<open>process.ts: the Process Controller\<close>

datatype level = LogDebug | LogInfo | LogWarn | LogError

datatype signal = SIGTERM | SIGKILL

datatype span_status = StatusOK | StatusError "json option"

text \<open>
  Everything the program does to its collaborators, in the order it does it: log records
  (level and message), metric updates, span operations, calls on a WebSocket, and
  operations on a child process. Sockets, Process Controllers and spans are named by
  numbers.
\<close>

datatype effect =
    Log level string
  | MessagesIn
  | MessagesOut
  | RequestCount json
  | RequestLatency int json
  | ErrorCount string "json option"
  | ActiveConnections int
  | SpanStart nat json
  | SpanSetAttribute nat string json
  | SpanSetStatus nat span_status
  | SpanEnd nat
  | WsSend nat string
  | WsClose nat nat string
  | OsSpawn nat string "string list" "(string \<times> string) list"
  | StdinWrite nat string
  | ProcessKill nat signal
  | SetTimeout nat nat
  | ReaderClose nat

text \<open>
  The \<open>ChildProcess\<close> handle of Node: its \<open>exitCode\<close> (\<open>null\<close> until Node sets it)
  and whether each of the three pipes exists.
\<close>

record ChildProcess =
  exitCode :: "int option"
  stdin :: bool
  stdout :: bool
  stderr :: bool

record ProcessManager =
  process :: "ChildProcess option"
  stdoutReader :: bool
  command :: string
  args :: "string list"

definition new_ProcessManager :: "string \<Rightarrow> string list \<Rightarrow> ProcessManager" where
  "new_ProcessManager c a = \<lparr>process = None, stdoutReader = False, command = c, args = a\<rparr>"

definition isRunning :: "ProcessManager \<Rightarrow> bool" where
  "isRunning pm = (case process pm of None \<Rightarrow> False | Some c \<Rightarrow> exitCode c = None)"

text \<open>
  The \<open>env\<close> option of \<open>spawn\<close>: the object literal
  \<open>{ ...process.env, ANTHROPIC_API_KEY: process.env.ANTHROPIC_API_KEY }\<close>.
  The spread copies every variable of the parent; the named member then overwrites
  that name (or is added last) with the parent's value, \<open>undefined\<close> when the parent
  has none; Node leaves out the members that are \<open>undefined\<close>.
\<close>

definition spread :: "(string \<times> string) list \<Rightarrow> (string \<times> string option) list" where
  "spread penv = map (\<lambda>(k, v). (k, Some v)) penv"

definition defined_members :: "(string \<times> string option) list \<Rightarrow> (string \<times> string) list" where
  "defined_members obj = concat (map (\<lambda>(k, v). case v of None \<Rightarrow> [] | Some x \<Rightarrow> [(k, x)]) obj)"

definition spawn_env :: "(string \<times> string) list \<Rightarrow> (string \<times> string) list" where
  "spawn_env penv =
     defined_members
       (AList.update ''ANTHROPIC_API_KEY'' (map_of penv ''ANTHROPIC_API_KEY'') (spread penv))"

text \<open>
  \<open>spawn()\<close>, for the Process Controller numbered \<open>h\<close>, the parent environment and the
  handle \<open>child_process.spawn\<close> returns. The result is the new controller, the effects and
  whether an \<open>error\<close> event was emitted to the listeners.
\<close>

definition spawn ::
  "nat \<Rightarrow> (string \<times> string) list \<Rightarrow> ChildProcess \<Rightarrow> ProcessManager
     \<Rightarrow> ProcessManager \<times> effect list \<times> bool" where
  "spawn h penv child pm =
     (if isRunning pm
      then (pm, [Log LogWarn ''Process already running, not spawning new one''], False)
      else
        let pm1 = pm\<lparr>process := Some child\<rparr>;
            e1 = [Log LogInfo ''Spawning process'',
                  OsSpawn h (command pm) (args pm) (spawn_env penv)]
        in if \<not> stdout child \<or> \<not> stdin child \<or> \<not> stderr child
           then (pm1, e1 @ [Log LogError ''Spawn failed''], True)
           else (pm1\<lparr>stdoutReader := True\<rparr>, e1 @ [Log LogInfo ''Process spawned''], False))"

text \<open>
  The listener on the lines of the child's standard output: the effects, and the payload
  of the \<open>message\<close> event when one is emitted.
\<close>

definition on_line :: "string \<Rightarrow> effect list \<times> string option" where
  "on_line line =
     (if trim line \<noteq> []
      then ([Log LogDebug ''Process stdout''], Some line)
      else ([], None))"

text \<open>The listener on a chunk of the child's standard error.\<close>

definition on_stderr :: "string \<Rightarrow> effect list" where
  "on_stderr data = (if trim data \<noteq> [] then [Log LogInfo ''Process stderr''] else [])"

text \<open>
  \<open>send(message)\<close>; \<open>accepted\<close> is what \<open>stdin.write\<close> returns when it is called.
\<close>

definition send :: "nat \<Rightarrow> string \<Rightarrow> bool \<Rightarrow> ProcessManager \<Rightarrow> bool \<times> effect list" where
  "send h message accepted pm =
     (if \<not> isRunning pm \<or> \<not> (case process pm of None \<Rightarrow> False | Some c \<Rightarrow> stdin c)
      then (False, [Log LogWarn ''Cannot send message, process not running''])
      else
        let line = (if endsWith_newline message then message else message @ [newline])
        in (accepted, [Log LogDebug ''Sending to process'', StdinWrite h line]))"

definition kill :: "nat \<Rightarrow> ProcessManager \<Rightarrow> effect list" where
  "kill h pm =
     (case process pm of
        None \<Rightarrow> []
      | Some c \<Rightarrow> [Log LogInfo ''Killing process'', ProcessKill h SIGTERM, SetTimeout h 5000])"

text \<open>The callback of the timer \<open>kill\<close> sets.\<close>

definition kill_timeout :: "nat \<Rightarrow> ProcessManager \<Rightarrow> effect list" where
  "kill_timeout h pm =
     (case process pm of
        None \<Rightarrow> []
      | Some c \<Rightarrow>
          if exitCode c = None
          then [Log LogWarn ''Process did not exit, sending SIGKILL'', ProcessKill h SIGKILL]
          else [])"

definition cleanup :: "nat \<Rightarrow> ProcessManager \<Rightarrow> ProcessManager \<times> effect list" where
  "cleanup h pm =
     (if stdoutReader pm
      then (pm\<lparr>stdoutReader := False, process := None\<rparr>, [ReaderClose h])
      else (pm\<lparr>process := None\<rparr>, []))"

text \<open>
  The listeners on the child's \<open>error\<close> and \<open>exit\<close> events; the first then emits
  \<open>error\<close>, the second \<open>exit\<close>.
\<close>

definition on_child_error :: "effect list" where
  "on_child_error = [Log LogError ''Process error'']"

definition on_child_exit :: "nat \<Rightarrow> ProcessManager \<Rightarrow> ProcessManager \<times> effect list" where
  "on_child_exit h pm =
     (let (pm1, e) = cleanup h pm
      in (pm1, [Log LogInfo ''Process exited''] @ e))"

section \<open>server.ts: the Connection Session Controller\<close>

text \<open>\<open>WebSocket.readyState\<close>\<close>

datatype ready_state = CONNECTING | OPEN | CLOSING | CLOSED

record ServerConfig =
  port :: nat
  command :: string
  commandArgs :: "string list"

record PendingRequest =
  startTime :: int
  "method" :: json
  span :: nat

text \<open>
  The keys of the \<open>Map\<close> of pending requests. A primitive value is a key by its type
  and value; an array or an object is a key by its identity, and \<open>JSON.parse\<close> makes a
  new one at every call.
\<close>

datatype key = KNull | KBool bool | KNum int | KStr string | KRef nat

fun key_of :: "json \<Rightarrow> key option" where
  "key_of JNull = Some KNull"
| "key_of (JBool b) = Some (KBool b)"
| "key_of (JNum n) = Some (KNum n)"
| "key_of (JStr s) = Some (KStr s)"
| "key_of (JArr xs) = None"
| "key_of (JObj kvs) = None"

text \<open>
  The fields of the class, the Process Controllers it has created (\<open>managers\<close>, named
  by number, \<open>next_manager\<close> the next free one), and the next free span and object
  identity. The \<open>Map\<close> is the list of its entries in insertion order:
  \<open>set\<close> is \<open>AList.update\<close>, \<open>get\<close> is \<open>map_of\<close>, \<open>delete\<close> is \<open>AList.delete\<close>.
\<close>

record BridgeServer =
  wss :: bool
  activeConnection :: "nat option"
  processManager :: "nat option"
  config :: ServerConfig
  pendingRequests :: "(key \<times> PendingRequest) list"
  sessionAuthenticated :: bool
  managers :: "nat \<Rightarrow> ProcessManager"
  next_manager :: nat
  next_span :: nat
  next_ref :: nat

definition new_BridgeServer :: "ServerConfig \<Rightarrow> BridgeServer" where
  "new_BridgeServer c =
     \<lparr>wss = False, activeConnection = None, processManager = None, config = c,
      pendingRequests = [], sessionAuthenticated = False,
      managers = (\<lambda>h. new_ProcessManager [] []), next_manager = 0,
      next_span = 0, next_ref = 0\<rparr>"

text \<open>
  \<open>this.activeConnection?.readyState === WebSocket.OPEN\<close>, where \<open>rs\<close> is what the
  active socket's \<open>readyState\<close> reads when the handler runs.
\<close>

definition active_open :: "ready_state \<Rightarrow> BridgeServer \<Rightarrow> bool" where
  "active_open rs s = (case activeConnection s of None \<Rightarrow> False | Some ws \<Rightarrow> rs = OPEN)"

text \<open>The listener on the Process Controller's \<open>error\<close> event.\<close>

definition on_process_error :: "BridgeServer \<Rightarrow> BridgeServer \<times> effect list" where
  "on_process_error s =
     (s, [Log LogError ''Process error'', ErrorCount ''process'' None] @
         (case activeConnection s of
            None \<Rightarrow> []
          | Some ws \<Rightarrow> [WsClose ws 1011 ''Process error'']))"

text \<open>The listener on the Process Controller's \<open>exit\<close> event.\<close>

definition on_process_exit :: "ready_state \<Rightarrow> BridgeServer \<Rightarrow> BridgeServer \<times> effect list" where
  "on_process_exit rs s =
     (s\<lparr>pendingRequests := []\<rparr>,
      [Log LogInfo ''Process exited''] @
      concat (map (\<lambda>(k, pending).
                [SpanSetStatus (span pending) (StatusError (Some (JStr ''Process exited''))),
                 SpanEnd (span pending)])
              (pendingRequests s)) @
      (case activeConnection s of
         None \<Rightarrow> []
       | Some ws \<Rightarrow> if rs = OPEN then [WsClose ws 1011 ''Process exited''] else []))"

definition ensureProcess ::
  "(string \<times> string) list \<Rightarrow> ChildProcess \<Rightarrow> BridgeServer \<Rightarrow> BridgeServer \<times> effect list" where
  "ensureProcess penv child s =
     (let e1 = (case processManager s of
                  None \<Rightarrow> []
                | Some h \<Rightarrow>
                    if isRunning (managers s h)
                    then Log LogInfo ''Killing existing process (session resume disabled)''
                         # kill h (managers s h)
                    else []);
          h = next_manager s;
          pm = new_ProcessManager (command (config s)) (commandArgs (config s));
          (pm1, e2, err) = spawn h penv child pm;
          s1 = s\<lparr>processManager := Some h, managers := (managers s)(h := pm1),
                 next_manager := Suc h\<rparr>;
          (s2, e3) = (if err then on_process_error s1 else (s1, []))
      in (s2, e1 @ e2 @ e3))"

text \<open>
  The \<open>try\<close> block of \<open>handleIncomingMessage\<close>. \<open>parsed\<close> is the result of
  \<open>JSON.parse(message)\<close>, \<open>None\<close> when it throws; \<open>now\<close> is \<open>Date.now()\<close>. Reading
  \<open>parsed.id\<close> of \<open>null\<close> throws, and so does converting a method or an id that has
  no string conversion; whatever was done before the throw stays done.
\<close>

definition track_request :: "json option \<Rightarrow> int \<Rightarrow> BridgeServer \<Rightarrow> BridgeServer \<times> effect list" where
  "track_request parsed now s =
     (case parsed of
        None \<Rightarrow> (s, [])
      | Some v \<Rightarrow>
          if v = JNull then (s, [])
          else
            (case member v ''id'' of
               None \<Rightarrow> (s, [])
             | Some i \<Rightarrow>
                 (case member v ''method'' of
                    None \<Rightarrow> (s, [])
                  | Some m \<Rightarrow>
                      if \<not> truthy m then (s, [])
                      else if \<not> stringifies m then (s, [])
                      else
                        let sp = next_span s;
                            s1 = s\<lparr>next_span := Suc sp\<rparr>;
                            e1 = [SpanStart sp m, SpanSetAttribute sp ''rpc.method'' m]
                        in if \<not> stringifies i then (s1, e1)
                           else
                             let (k, s2) =
                                   (case key_of i of
                                      Some k \<Rightarrow> (k, s1)
                                    | None \<Rightarrow> (KRef (next_ref s1),
                                               s1\<lparr>next_ref := Suc (next_ref s1)\<rparr>));
                                 pending = \<lparr>startTime = now, method = m, span = sp\<rparr>
                             in (s2\<lparr>pendingRequests :=
                                      AList.update k pending (pendingRequests s2)\<rparr>,
                                 e1 @ [SpanSetAttribute sp ''rpc.id'' i, RequestCount m]))))"

text \<open>
  \<open>handleIncomingMessage\<close>; \<open>accepted\<close> is what \<open>stdin.write\<close> returns if \<open>send\<close>
  reaches it.
\<close>

definition handleIncomingMessage ::
  "string \<Rightarrow> json option \<Rightarrow> int \<Rightarrow> bool \<Rightarrow> BridgeServer \<Rightarrow> BridgeServer \<times> effect list" where
  "handleIncomingMessage message parsed now accepted s =
     (let (s1, e1) = track_request parsed now s;
          (sent, e2) = (case processManager s1 of
                          None \<Rightarrow> (False, [])
                        | Some h \<Rightarrow> send h message accepted (managers s1 h))
      in (s1, [MessagesIn, Log LogInfo ''Message received''] @ e1 @ e2 @
              (if \<not> sent
               then [Log LogError ''Failed to send message to process'',
                     ErrorCount ''send_failed'' None]
               else [])))"

text \<open>\<open>parsed.error.message\<close>, read when \<open>parsed.error\<close> is truthy.\<close>

definition error_message :: "json \<Rightarrow> json option" where
  "error_message v = (case member v ''error'' of None \<Rightarrow> None | Some err \<Rightarrow> member err ''message'')"

text \<open>The \<open>try\<close> block of \<open>handleOutgoingMessage\<close>.\<close>

definition track_response :: "json option \<Rightarrow> int \<Rightarrow> BridgeServer \<Rightarrow> BridgeServer \<times> effect list" where
  "track_response parsed now s =
     (case parsed of
        None \<Rightarrow> (s, [])
      | Some v \<Rightarrow>
          if v = JNull then (s, [])
          else
            (case member v ''id'' of
               None \<Rightarrow> (s, [])
             | Some i \<Rightarrow>
                 (case key_of i of
                    None \<Rightarrow> (s, [])
                  | Some k \<Rightarrow>
                      (case map_of (pendingRequests s) k of
                         None \<Rightarrow> (s, [])
                       | Some pending \<Rightarrow>
                           let latency = now - startTime pending;
                               e1 = [RequestLatency latency (method pending)];
                               (s1, e2) =
                                 (if truthy_opt (member v ''error'')
                                  then (s, [SpanSetStatus (span pending)
                                              (StatusError (error_message v)),
                                            ErrorCount ''rpc_error'' (Some (method pending))])
                                  else if method pending = JStr ''initialize''
                                          \<and> \<not> sessionAuthenticated s
                                  then (s\<lparr>sessionAuthenticated := True\<rparr>,
                                        [SpanSetStatus (span pending) StatusOK,
                                         Log LogInfo
                                           ''Session authenticated (initialize succeeded)''])
                                  else (s, [SpanSetStatus (span pending) StatusOK]))
                           in (s1\<lparr>pendingRequests := AList.delete k (pendingRequests s1)\<rparr>,
                               e1 @ e2 @ [SpanEnd (span pending)])))))"

text \<open>
  \<open>handleOutgoingMessage\<close>; \<open>rs\<close> is what the active socket's \<open>readyState\<close> reads.
\<close>

definition handleOutgoingMessage ::
  "string \<Rightarrow> json option \<Rightarrow> int \<Rightarrow> ready_state \<Rightarrow> BridgeServer \<Rightarrow> BridgeServer \<times> effect list" where
  "handleOutgoingMessage data parsed now rs s =
     (let (s1, e1) = track_response parsed now s;
          e2 = (case activeConnection s1 of
                  None \<Rightarrow> [Log LogWarn ''No active connection to send message to'']
                | Some ws \<Rightarrow>
                    if rs = OPEN then [WsSend ws data]
                    else [Log LogWarn ''No active connection to send message to''])
      in (s1, [MessagesOut, Log LogInfo ''Message sending''] @ e1 @ e2))"

text \<open>
  The listener \<open>start\<close> puts on the server's \<open>connection\<close> event, for the socket
  \<open>ws\<close>; \<open>penv\<close> and \<open>child\<close> are what \<open>spawn\<close> is given by the system.
\<close>

definition on_connection ::
  "nat \<Rightarrow> (string \<times> string) list \<Rightarrow> ChildProcess \<Rightarrow> ready_state \<Rightarrow> BridgeServer
     \<Rightarrow> BridgeServer \<times> effect list" where
  "on_connection ws penv child rs s =
     (if active_open rs s
      then (s, [Log LogInfo ''Connection attempt'',
                Log LogWarn ''Rejecting connection, already have active client'',
                WsClose ws 1013 ''Server busy - single user mode''])
      else
        let s1 = s\<lparr>activeConnection := Some ws\<rparr>;
            (s2, e) = ensureProcess penv child s1
        in (s2, [Log LogInfo ''Connection attempt'', ActiveConnections 1,
                 Log LogInfo ''Client connected''] @ e))"

text \<open>The listener on an admitted socket's \<open>close\<close> event.\<close>

definition on_close :: "BridgeServer \<Rightarrow> BridgeServer \<times> effect list" where
  "on_close s =
     (let s1 = s\<lparr>activeConnection := None\<rparr>;
          (s2, e2) =
            (case processManager s1 of
               None \<Rightarrow> (s1, [])
             | Some h \<Rightarrow>
                 if \<not> sessionAuthenticated s1
                 then (s1\<lparr>processManager := None\<rparr>,
                       Log LogInfo ''Session not authenticated, killing process''
                       # kill h (managers s1 h))
                 else (s1, []));
          (s3, e3) =
            (case processManager s2 of
               None \<Rightarrow> (s2, [])
             | Some h \<Rightarrow>
                 (s2\<lparr>processManager := None\<rparr>,
                  Log LogInfo ''Killing process on disconnect (session resume disabled)''
                  # kill h (managers s2 h)))
      in (s3\<lparr>sessionAuthenticated := False\<rparr>,
          [Log LogInfo ''Client disconnected'', ActiveConnections (- 1)] @ e2 @ e3))"

text \<open>The listener on an admitted socket's \<open>error\<close> event.\<close>

definition on_ws_error :: "effect list" where
  "on_ws_error = [Log LogError ''WebSocket error'', ErrorCount ''websocket'' None]"

text \<open>The listener on the server's \<open>error\<close> event.\<close>

definition on_server_error :: "effect list" where
  "on_server_error = [Log LogError ''Server error'']"

definition start :: "BridgeServer \<Rightarrow> BridgeServer \<times> effect list" where
  "start s = (s\<lparr>wss := True\<rparr>, [Log LogInfo ''WebSocket server started''])"

definition stop :: "BridgeServer \<Rightarrow> BridgeServer \<times> effect list" where
  "stop s =
     (let (s1, e1) =
            (case activeConnection s of
               None \<Rightarrow> (s, [])
             | Some ws \<Rightarrow> (s\<lparr>activeConnection := None\<rparr>,
                           [WsClose ws 1001 ''Server shutting down'']));
          (s2, e2) =
            (case processManager s1 of
               None \<Rightarrow> (s1, [])
             | Some h \<Rightarrow> (s1\<lparr>processManager := None\<rparr>, kill h (managers s1 h)))
      in (s2\<lparr>wss := False\<rparr>,
          [Log LogInfo ''Stopping server''] @ e1 @ e2 @ [Log LogInfo ''Server stopped'']))"

section \<open>The event loop\<close>

text \<open>
  Node runs one listener at a time. An event names the listener that runs and carries
  what the listener reads from outside the program: the socket of a new connection, the
  text of a frame and what \<open>JSON.parse\<close> makes of it, the clock, the \<open>readyState\<close> of the
  active socket, the result of a write. \<open>SetExitCode\<close> is Node recording, on the handle a
  Process Controller holds, that the child is gone.
\<close>

datatype event =
    OnStart
  | OnStop
  | OnConnection nat "(string \<times> string) list" ChildProcess ready_state
  | OnWsMessage string "json option" int bool
  | OnWsClose
  | OnWsError
  | OnServerError
  | OnStdoutLine string "json option" int ready_state
  | OnStderrData string
  | OnChildError
  | OnChildExit nat ready_state
  | OnKillTimeout nat
  | SetExitCode nat "int option"

fun step :: "event \<Rightarrow> BridgeServer \<Rightarrow> BridgeServer \<times> effect list" where
  "step OnStart s = start s"
| "step OnStop s = stop s"
| "step (OnConnection ws penv child rs) s = on_connection ws penv child rs s"
| "step (OnWsMessage message parsed now accepted) s =
     handleIncomingMessage message parsed now accepted s"
| "step OnWsClose s = on_close s"
| "step OnWsError s = (s, on_ws_error)"
| "step OnServerError s = (s, on_server_error)"
| "step (OnStdoutLine line parsed now rs) s =
     (case on_line line of
        (e, None) \<Rightarrow> (s, e)
      | (e, Some data) \<Rightarrow>
          (let (s1, e1) = handleOutgoingMessage data parsed now rs s in (s1, e @ e1)))"
| "step (OnStderrData data) s = (s, on_stderr data)"
| "step OnChildError s =
     (let (s1, e1) = on_process_error s in (s1, on_child_error @ e1))"
| "step (OnChildExit h rs) s =
     (let (pm1, e) = on_child_exit h (managers s h);
          (s1, e1) = on_process_exit rs (s\<lparr>managers := (managers s)(h := pm1)\<rparr>)
      in (s1, e @ e1))"
| "step (OnKillTimeout h) s = (s, kill_timeout h (managers s h))"
| "step (SetExitCode h c) s =
     (s\<lparr>managers := (managers s)
           (h := (managers s h)\<lparr>process :=
                    map_option (\<lambda>p. p\<lparr>exitCode := c\<rparr>) (process (managers s h))\<rparr>)\<rparr>, [])"

fun run :: "event list \<Rightarrow> BridgeServer \<Rightarrow> BridgeServer \<times> effect list" where
  "run [] s = (s, [])"
| "run (ev # evs) s =
     (let (s1, e1) = step ev s;
          (s2, e2) = run evs s1
      in (s2, e1 @ e2))"

section \<open>Reading a list of effects\<close>

text \<open>
  Each function keeps one kind of effect, in order: what was written to a child's
  standard input, everything that is not a log record, the changes of the gauge of
  active connections, the calls of \<open>close\<close> on sockets, the latency samples, the signals
  sent, the processes started, and the operations that give a span a status or end it.
\<close>

fun stdin_writes :: "effect list \<Rightarrow> (nat \<times> string) list" where
  "stdin_writes [] = []"
| "stdin_writes (StdinWrite h l # es) = (h, l) # stdin_writes es"
| "stdin_writes (_ # es) = stdin_writes es"

fun not_log :: "effect list \<Rightarrow> effect list" where
  "not_log [] = []"
| "not_log (Log l m # es) = not_log es"
| "not_log (x # es) = x # not_log es"

fun gauge :: "effect list \<Rightarrow> int list" where
  "gauge [] = []"
| "gauge (ActiveConnections d # es) = d # gauge es"
| "gauge (_ # es) = gauge es"

fun ws_closes :: "effect list \<Rightarrow> (nat \<times> nat \<times> string) list" where
  "ws_closes [] = []"
| "ws_closes (WsClose ws c r # es) = (ws, c, r) # ws_closes es"
| "ws_closes (_ # es) = ws_closes es"

fun latencies :: "effect list \<Rightarrow> (int \<times> json) list" where
  "latencies [] = []"
| "latencies (RequestLatency l m # es) = (l, m) # latencies es"
| "latencies (_ # es) = latencies es"

fun kills :: "effect list \<Rightarrow> (nat \<times> signal) list" where
  "kills [] = []"
| "kills (ProcessKill h sg # es) = (h, sg) # kills es"
| "kills (_ # es) = kills es"

fun os_spawns :: "effect list \<Rightarrow> nat list" where
  "os_spawns [] = []"
| "os_spawns (OsSpawn h c a env # es) = h # os_spawns es"
| "os_spawns (_ # es) = os_spawns es"

fun span_ops :: "effect list \<Rightarrow> effect list" where
  "span_ops [] = []"
| "span_ops (SpanSetStatus sp st # es) = SpanSetStatus sp st # span_ops es"
| "span_ops (SpanEnd sp # es) = SpanEnd sp # span_ops es"
| "span_ops (_ # es) = span_ops es"

fun ended_spans :: "effect list \<Rightarrow> nat list" where
  "ended_spans [] = []"
| "ended_spans (SpanEnd sp # es) = sp # ended_spans es"
| "ended_spans (_ # es) = ended_spans es"

fun touched_spans :: "effect list \<Rightarrow> nat list" where
  "touched_spans [] = []"
| "touched_spans (SpanSetStatus sp st # es) = sp # touched_spans es"
| "touched_spans (SpanEnd sp # es) = sp # touched_spans es"
| "touched_spans (_ # es) = touched_spans es"

section \<open>Notions the properties are stated with\<close>

text \<open>The spans the pending requests hold, in the order of the \<open>Map\<close>.\<close>

definition spans_of :: "(key \<times> PendingRequest) list \<Rightarrow> nat list" where
  "spans_of ps = map (\<lambda>(k, pending). span pending) ps"

text \<open>
  What holds of the \<open>Map\<close> in every state the server reaches: no key occurs twice, no
  span is held by two entries, and every span held was started before.
\<close>

definition pending_ok :: "BridgeServer \<Rightarrow> bool" where
  "pending_ok s \<longleftrightarrow>
     distinct (map fst (pendingRequests s)) \<and>
     distinct (spans_of (pendingRequests s)) \<and>
     list_all (\<lambda>sp. sp < next_span s) (spans_of (pendingRequests s))"

text \<open>The current Process Controller is one that has been created.\<close>

definition managers_ok :: "BridgeServer \<Rightarrow> bool" where
  "managers_ok s = (case processManager s of None \<Rightarrow> True | Some h \<Rightarrow> h < next_manager s)"

text \<open>
  The key a frame's \<open>id\<close> names, when the frame parses, has an \<open>id\<close>, and the \<open>id\<close>
  is a primitive value; the pending request a frame resolves; whether a frame carries a
  truthy \<open>error\<close>.
\<close>

definition frame_key :: "json option \<Rightarrow> key option" where
  "frame_key parsed =
     (case parsed of
        None \<Rightarrow> None
      | Some v \<Rightarrow> (case member v ''id'' of None \<Rightarrow> None | Some i \<Rightarrow> key_of i))"

definition resolves :: "json option \<Rightarrow> BridgeServer \<Rightarrow> PendingRequest option" where
  "resolves parsed s =
     (case frame_key parsed of None \<Rightarrow> None | Some k \<Rightarrow> map_of (pendingRequests s) k)"

definition error_payload :: "json option \<Rightarrow> bool" where
  "error_payload parsed =
     (case parsed of None \<Rightarrow> False | Some v \<Rightarrow> truthy_opt (member v ''error''))"

text \<open>How often \<open>sessionAuthenticated\<close> goes from false to true along a run.\<close>

fun auth_flips :: "event list \<Rightarrow> BridgeServer \<Rightarrow> nat" where
  "auth_flips [] s = 0"
| "auth_flips (ev # evs) s =
     (if \<not> sessionAuthenticated s \<and> sessionAuthenticated (fst (step ev s)) then 1 else 0)
     + auth_flips evs (fst (step ev s))"

text \<open>
  An event leaves the pending request under key \<open>k\<close> alone: it is not the exit of a
  process, nor a frame in either direction whose \<open>id\<close> is \<open>k\<close>.
\<close>

fun undisturbed :: "key \<Rightarrow> event \<Rightarrow> bool" where
  "undisturbed k (OnWsMessage message parsed now accepted) = (frame_key parsed \<noteq> Some k)"
| "undisturbed k (OnStdoutLine line parsed now rs) = (frame_key parsed \<noteq> Some k)"
| "undisturbed k (OnChildExit h rs) = False"
| "undisturbed k _ = True"

text \<open>A span that was started and that no pending request holds.\<close>

definition abandoned :: "nat \<Rightarrow> BridgeServer \<Rightarrow> bool" where
  "abandoned sp s \<longleftrightarrow> sp \<notin> set (spans_of (pendingRequests s)) \<and> sp < next_span s"

text \<open>
  Connection attempts, each arriving while the active socket, if there is one, reads
  \<open>OPEN\<close>; and the closing of each with the busy code.
\<close>

definition attempts :: "(nat \<times> (string \<times> string) list \<times> ChildProcess) list \<Rightarrow> event list" where
  "attempts xs = map (\<lambda>(ws, penv, child). OnConnection ws penv child OPEN) xs"

definition busy_closes :: "(nat \<times> (string \<times> string) list \<times> ChildProcess) list \<Rightarrow> effect list" where
  "busy_closes xs =
     map (\<lambda>(ws, penv, child). WsClose ws 1013 ''Server busy - single user mode'') xs"

definition process_exited :: span_status where
  "process_exited = StatusError (Some (JStr ''Process exited''))"

section \<open>A session to evaluate the properties on\<close>

definition example_config :: ServerConfig where
  "example_config = \<lparr>port = 8647, command = ''claude-code-acp'', commandArgs = []\<rparr>"

definition example_child :: ChildProcess where
  "example_child = \<lparr>exitCode = None, stdin = True, stdout = True, stderr = True\<rparr>"

definition example_env :: "(string \<times> string) list" where
  "example_env = [(''PATH'', ''/usr/bin''), (''ANTHROPIC_API_KEY'', ''sk-1'')]"

text \<open>The server after \<open>start\<close> and the admission of socket 1.\<close>

definition example_session :: BridgeServer where
  "example_session =
     fst (run [OnStart, OnConnection 1 example_env example_child OPEN]
            (new_BridgeServer example_config))"

text \<open>
  The text of a frame takes no part in the tracking, which works on what \<open>JSON.parse\<close>
  makes of it; the examples give short names as texts and the parsed values in full: the
  frames \<open>{"id":1,"method":"initialize"}\<close>, \<open>{"id":1,"result":{}}\<close>,
  \<open>{"id":2,"method":"session/new"}\<close>, \<open>{"id":1,"method":"session/new"}\<close> and
  \<open>{"id":"1","method":"session/new"}\<close> as \<open>JSON.parse\<close> returns them.
\<close>

definition initialize_request :: json where
  "initialize_request = JObj [(''id'', JNum 1), (''method'', JStr ''initialize'')]"

definition initialize_result :: json where
  "initialize_result = JObj [(''id'', JNum 1), (''result'', JObj [])]"

definition session_request :: json where
  "session_request = JObj [(''id'', JNum 2), (''method'', JStr ''session/new'')]"

definition duplicate_request :: json where
  "duplicate_request = JObj [(''id'', JNum 1), (''method'', JStr ''session/new'')]"

definition textual_request :: json where
  "textual_request = JObj [(''id'', JStr ''1''), (''method'', JStr ''session/new'')]"

text \<open>The example session once the peer has sent the \<open>initialize\<close> request at time 100.\<close>

definition example_pending :: BridgeServer where
  "example_pending =
     fst (step (OnWsMessage ''initialize'' (Some initialize_request) 100 True) example_session)"

section \<open>Facts about the effects\<close>

lemma stdin_writes_append [simp]: "stdin_writes (a @ b) = stdin_writes a @ stdin_writes b"
  by (induction a rule: stdin_writes.induct) simp_all

lemma not_log_append [simp]: "not_log (a @ b) = not_log a @ not_log b"
  by (induction a rule: not_log.induct) simp_all

lemma gauge_append [simp]: "gauge (a @ b) = gauge a @ gauge b"
  by (induction a rule: gauge.induct) simp_all

lemma ws_closes_append [simp]: "ws_closes (a @ b) = ws_closes a @ ws_closes b"
  by (induction a rule: ws_closes.induct) simp_all

lemma latencies_append [simp]: "latencies (a @ b) = latencies a @ latencies b"
  by (induction a rule: latencies.induct) simp_all

lemma kills_append [simp]: "kills (a @ b) = kills a @ kills b"
  by (induction a rule: kills.induct) simp_all

lemma os_spawns_append [simp]: "os_spawns (a @ b) = os_spawns a @ os_spawns b"
  by (induction a rule: os_spawns.induct) simp_all

lemma span_ops_append [simp]: "span_ops (a @ b) = span_ops a @ span_ops b"
  by (induction a rule: span_ops.induct) simp_all

lemma ended_spans_append [simp]: "ended_spans (a @ b) = ended_spans a @ ended_spans b"
  by (induction a rule: ended_spans.induct) simp_all

lemma touched_spans_append [simp]: "touched_spans (a @ b) = touched_spans a @ touched_spans b"
  by (induction a rule: touched_spans.induct) simp_all

lemma spans_of_simps [simp]:
  "spans_of [] = []"
  "spans_of ((k, p) # ps) = span p # spans_of ps"
  by (simp_all add: spans_of_def)

text \<open>The span operations of the loop that fails every pending request.\<close>

lemma exit_loop_effects [simp]:
  "span_ops (concat (map (\<lambda>(k, pending).
      [SpanSetStatus (span pending) st, SpanEnd (span pending)]) ps))
     = concat (map (\<lambda>(k, pending).
      [SpanSetStatus (span pending) st, SpanEnd (span pending)]) ps)"
  "ended_spans (concat (map (\<lambda>(k, pending).
      [SpanSetStatus (span pending) st, SpanEnd (span pending)]) ps)) = spans_of ps"
  "ws_closes (concat (map (\<lambda>(k, pending).
      [SpanSetStatus (span pending) st, SpanEnd (span pending)]) ps)) = []"
  "touched_spans (concat (map (\<lambda>(k, pending).
      [SpanSetStatus (span pending) st, SpanEnd (span pending)]) ps))
     = concat (map (\<lambda>sp. [sp, sp]) (spans_of ps))"
  by (induction ps) auto

lemmas model_defs =
  start_def stop_def on_connection_def on_close_def on_ws_error_def on_server_error_def
  on_process_error_def on_process_exit_def ensureProcess_def track_request_def track_response_def
  handleIncomingMessage_def handleOutgoingMessage_def error_message_def active_open_def
  spawn_def send_def kill_def kill_timeout_def cleanup_def on_line_def on_stderr_def
  on_child_error_def on_child_exit_def isRunning_def new_ProcessManager_def new_BridgeServer_def
  spawn_env_def spread_def defined_members_def trim_def is_space_def endsWith_newline_def
  truthy_opt_def newline_def

lemmas example_defs =
  example_config_def example_child_def example_env_def initialize_request_def
  initialize_result_def session_request_def duplicate_request_def textual_request_def

lemma example_session_eq:
  "example_session =
     \<lparr>wss = True, activeConnection = Some 1, processManager = Some 0, config = example_config,
      pendingRequests = [], sessionAuthenticated = False,
      managers = (\<lambda>h. new_ProcessManager [] [])
        (0 := \<lparr>process = Some example_child, stdoutReader = True,
               ProcessManager.command = ''claude-code-acp'', args = []\<rparr>),
      next_manager = 1, next_span = 0, next_ref = 0\<rparr>"
  by (simp add: example_session_def model_defs example_defs)

lemma example_pending_eq:
  "example_pending =
     \<lparr>wss = True, activeConnection = Some 1, processManager = Some 0, config = example_config,
      pendingRequests = [(KNum 1, \<lparr>startTime = 100, method = JStr ''initialize'', span = 0\<rparr>)],
      sessionAuthenticated = False,
      managers = (\<lambda>h. new_ProcessManager [] [])
        (0 := \<lparr>process = Some example_child, stdoutReader = True,
               ProcessManager.command = ''claude-code-acp'', args = []\<rparr>),
      next_manager = 1, next_span = 1, next_ref = 0\<rparr>"
  by (simp add: example_pending_def example_session_eq model_defs example_defs)

section \<open>The Process Controller: environment, send, output lines\<close>

text \<open>
  C1 (the child receives only the allow-listed variables). The code does not do this:
  the object given to \<open>spawn\<close> starts with a spread of the whole parent environment, so
  every parent variable reaches the child. With a parent environment that holds
  \<open>PATH\<close> and \<open>ANTHROPIC_API_KEY\<close>, the child's environment holds \<open>PATH\<close> too.
\<close>

theorem C1_child_env_has_parent_variable:
  "map_of (spawn_env [(''PATH'', ''/usr/bin''), (''ANTHROPIC_API_KEY'', ''sk-1'')]) ''PATH''
     = Some ''/usr/bin''"
  by (simp add: spawn_env_def spread_def defined_members_def)

lemma endsWith_newline_iff: "endsWith_newline s \<longleftrightarrow> s \<noteq> [] \<and> last s = newline"
  by (cases s rule: rev_cases) (simp_all add: endsWith_newline_def)

text \<open>
  C7 (\<open>send\<close>). When the controller is running and has a standard input, \<open>send\<close> returns
  what the write returns and writes once: a line that ends in a newline, begins with the
  whole message, and is one character longer than the message exactly when the message
  does not already end in a newline. Otherwise (in particular when no process is
  running) it returns false and writes nothing.
\<close>

theorem C7_send:
  "send h message accepted pm = (r, e) \<Longrightarrow>
     (if isRunning pm \<and> (\<exists>c. process pm = Some c \<and> stdin c)
      then r = accepted \<and>
           (\<exists>line. stdin_writes e = [(h, line)] \<and> line \<noteq> [] \<and> last line = newline \<and>
                   take (length message) line = message \<and>
                   length line = length message +
                     (if message \<noteq> [] \<and> last message = newline then 0 else 1))
      else r = False \<and> stdin_writes e = [])"
  by (auto simp: send_def endsWith_newline_iff isRunning_def split: option.splits if_splits)

theorem C7_send_witness:
  "isRunning (managers example_session 0) \<and>
   send 0 ''ping'' True (managers example_session 0)
     = (True, [Log LogDebug ''Sending to process'', StdinWrite 0 (''ping'' @ [newline])]) \<and>
   send 0 (''ping'' @ [newline]) False (managers example_session 0)
     = (False, [Log LogDebug ''Sending to process'', StdinWrite 0 (''ping'' @ [newline])]) \<and>
   fst (send 0 ''ping'' True (new_ProcessManager ''claude-code-acp'' [])) = False \<and>
   stdin_writes (snd (send 0 ''ping'' True (new_ProcessManager ''claude-code-acp'' []))) = []"
  using C7_send [of 0 "''ping''" True "managers example_session 0" True
     "[Log LogDebug ''Sending to process'', StdinWrite 0 (''ping'' @ [newline])]"]
  by (simp add: example_session_eq model_defs example_defs)

lemma trim_empty_iff: "trim s = [] \<longleftrightarrow> list_all is_space s"
proof
  assume "trim s = []"
  then have all: "\<forall>x \<in> set (dropWhile is_space s). is_space x"
    by (simp add: trim_def dropWhile_eq_Nil_conv)
  have "dropWhile is_space s = []"
  proof (rule ccontr)
    assume ne: "dropWhile is_space s \<noteq> []"
    then have "\<not> is_space (hd (dropWhile is_space s))"
      by (rule hd_dropWhile)
    moreover from ne all have "is_space (hd (dropWhile is_space s))"
      by simp
    ultimately show False by simp
  qed
  then show "list_all is_space s"
    by (simp add: dropWhile_eq_Nil_conv list_all_iff)
next
  assume "list_all is_space s"
  then have d: "dropWhile is_space s = []"
    by (simp add: list_all_iff)
  show "trim s = []"
    unfolding trim_def d by simp
qed

text \<open>
  C8 as the claim states it (the trimmed line is the payload of the \<open>message\<close> event)
  fails: for the line \<open>" x"\<close> the payload is \<open>" x"\<close>, and its trimmed form is \<open>"x"\<close>.
\<close>

theorem C8_counterexample:
  "snd (on_line '' x'') = Some '' x'' \<and> trim '' x'' = ''x'' \<and>
   snd (on_line '' x'') \<noteq> Some (trim '' x'')"
  by (simp add: on_line_def trim_def is_space_def)

text \<open>
  C8, amended. A line of the child's standard output is emitted as it is, untrimmed, as
  the payload of one \<open>message\<close> event when some character of it is not white space;
  a line of white space only (empty after trimming) emits no event and has no effect.
\<close>

theorem C8_line_emitted_untrimmed:
  "snd (on_line line) = (if list_all is_space line then None else Some line) \<and>
   (list_all is_space line \<longrightarrow> fst (on_line line) = [])"
  by (simp add: on_line_def trim_empty_iff)

theorem C8_line_emitted_untrimmed_witness:
  "snd (on_line '' x'') = Some '' x'' \<and> list_all is_space ''  '' \<and> fst (on_line ''  '') = []"
  using C8_line_emitted_untrimmed [of "'' x''"] C8_line_emitted_untrimmed [of "''  ''"]
  by (simp add: is_space_def)

section \<open>The state of a handler's result\<close>

lemma fst_handleIncomingMessage:
  "fst (handleIncomingMessage message parsed now accepted s) = fst (track_request parsed now s)"
  by (simp add: handleIncomingMessage_def split_def Let_def)

lemma fst_handleOutgoingMessage:
  "fst (handleOutgoingMessage data parsed now rs s) = fst (track_response parsed now s)"
  by (simp add: handleOutgoingMessage_def split_def Let_def)

lemma fst_run_Cons: "fst (run (ev # evs) s) = fst (run evs (fst (step ev s)))"
  by (simp add: split_def Let_def)

lemma snd_run_Cons: "snd (run (ev # evs) s) = snd (step ev s) @ snd (run evs (fst (step ev s)))"
  by (simp add: split_def Let_def)

lemma ensureProcess_keeps:
  "pendingRequests (fst (ensureProcess penv child s)) = pendingRequests s \<and>
   next_span (fst (ensureProcess penv child s)) = next_span s \<and>
   sessionAuthenticated (fst (ensureProcess penv child s)) = sessionAuthenticated s \<and>
   activeConnection (fst (ensureProcess penv child s)) = activeConnection s"
  by (simp add: ensureProcess_def spawn_def new_ProcessManager_def isRunning_def
        on_process_error_def Let_def split_def)

lemma ensureProcess_manager:
  "processManager (fst (ensureProcess penv child s)) = Some (next_manager s) \<and>
   next_manager (fst (ensureProcess penv child s)) = Suc (next_manager s) \<and>
   process (managers (fst (ensureProcess penv child s)) (next_manager s)) = Some child \<and>
   os_spawns (snd (ensureProcess penv child s)) = [next_manager s] \<and>
   gauge (snd (ensureProcess penv child s)) = [] \<and>
   touched_spans (snd (ensureProcess penv child s)) = []"
  by (auto simp: ensureProcess_def spawn_def new_ProcessManager_def isRunning_def kill_def
                 on_process_error_def Let_def split_def split: option.splits)

text \<open>Only frames from the peer, lines of the process and its exit change the \<open>Map\<close>.\<close>

lemma step_pending_same:
  assumes "case ev of OnWsMessage m p n a \<Rightarrow> False | OnStdoutLine l p n rs \<Rightarrow> False
           | OnChildExit h rs \<Rightarrow> False | _ \<Rightarrow> True"
  shows "pendingRequests (fst (step ev s)) = pendingRequests s \<and>
         next_span (fst (step ev s)) = next_span s"
  using assms
  by (cases ev)
     (auto simp: start_def stop_def on_connection_def on_close_def on_process_error_def Let_def
           split_def ensureProcess_keeps split: option.splits)

section \<open>The pending requests stay well formed\<close>

lemma spans_update_subset:
  "set (spans_of (AList.update k v ps)) \<subseteq> insert (span v) (set (spans_of ps))"
  by (induction ps) auto

lemma spans_update_distinct:
  "distinct (spans_of ps) \<Longrightarrow> span v \<notin> set (spans_of ps)
     \<Longrightarrow> distinct (spans_of (AList.update k v ps))"
proof (induction ps)
  case Nil
  then show ?case by simp
next
  case (Cons a ps)
  obtain k' p' where a: "a = (k', p')" by (cases a)
  show ?case
  proof (cases "k' = k")
    case True
    with Cons.prems a show ?thesis by auto
  next
    case False
    from Cons.prems a have "span p' \<noteq> span v" "span p' \<notin> set (spans_of ps)"
      by auto
    then have "span p' \<notin> set (spans_of (AList.update k v ps))"
      using spans_update_subset [of k v ps] by blast
    with False Cons a show ?thesis by auto
  qed
qed

lemma spans_delete_subset: "set (spans_of (AList.delete k ps)) \<subseteq> set (spans_of ps)"
  by (induction ps) auto

lemma spans_delete_distinct: "distinct (spans_of ps) \<Longrightarrow> distinct (spans_of (AList.delete k ps))"
proof (induction ps)
  case Nil
  then show ?case by simp
next
  case (Cons a ps)
  obtain k' p' where a: "a = (k', p')" by (cases a)
  from Cons.prems a have "span p' \<notin> set (spans_of ps)" by simp
  then have "span p' \<notin> set (spans_of (AList.delete k ps))"
    using spans_delete_subset [of k ps] by blast
  with Cons a show ?case by auto
qed

lemma span_of_entry: "map_of ps k = Some p \<Longrightarrow> span p \<in> set (spans_of ps)"
  by (force simp: spans_of_def dest: map_of_SomeD)

lemma pending_ok_update:
  assumes "pending_ok s"
    and "pendingRequests s' =
           AList.update k \<lparr>startTime = t, method = m, span = next_span s\<rparr> (pendingRequests s)"
    and "next_span s' = Suc (next_span s)"
  shows "pending_ok s'"
proof -
  let ?v = "\<lparr>startTime = t, method = m, span = next_span s\<rparr>"
  from assms(1) have d: "distinct (map fst (pendingRequests s))"
    and ds: "distinct (spans_of (pendingRequests s))"
    and b: "\<forall>sp \<in> set (spans_of (pendingRequests s)). sp < next_span s"
    by (simp_all add: pending_ok_def list_all_iff)
  from b have "span ?v \<notin> set (spans_of (pendingRequests s))"
    by auto
  with ds have 1: "distinct (spans_of (AList.update k ?v (pendingRequests s)))"
    by (rule spans_update_distinct)
  have 2: "\<forall>sp \<in> set (spans_of (AList.update k ?v (pendingRequests s))). sp < Suc (next_span s)"
    using spans_update_subset [of k ?v "pendingRequests s"] b by fastforce
  from d 1 2 assms(2,3) show ?thesis
    by (simp add: pending_ok_def distinct_update list_all_iff)
qed

lemma pending_ok_same:
  "pending_ok s \<Longrightarrow> pendingRequests s' = pendingRequests s \<Longrightarrow> next_span s \<le> next_span s'
     \<Longrightarrow> pending_ok s'"
  by (fastforce simp: pending_ok_def list_all_iff)

lemma pending_ok_delete:
  assumes "pending_ok s"
    and "pendingRequests s' = AList.delete k (pendingRequests s)"
    and "next_span s' = next_span s"
  shows "pending_ok s'"
  using assms spans_delete_subset [of k "pendingRequests s"]
  by (auto simp: pending_ok_def distinct_delete spans_delete_distinct list_all_iff)

lemma pending_ok_track_request: "pending_ok s \<Longrightarrow> pending_ok (fst (track_request parsed now s))"
  by (auto simp: track_request_def Let_def split: option.splits prod.splits
           intro: pending_ok_update [of s] pending_ok_same [of s])

lemma pending_ok_track_response: "pending_ok s \<Longrightarrow> pending_ok (fst (track_response parsed now s))"
  by (auto simp: track_response_def Let_def split: option.splits prod.splits
           intro: pending_ok_delete [of s])

lemma pending_ok_step:
  assumes ok: "pending_ok s"
  shows "pending_ok (fst (step ev s))"
proof -
  consider (incoming) m p n a where "ev = OnWsMessage m p n a"
    | (outgoing) l p n rs where "ev = OnStdoutLine l p n rs"
    | (exit) h rs where "ev = OnChildExit h rs"
    | (other) "case ev of OnWsMessage m p n a \<Rightarrow> False | OnStdoutLine l p n rs \<Rightarrow> False
               | OnChildExit h rs \<Rightarrow> False | _ \<Rightarrow> True"
    by (cases ev) auto
  then show ?thesis
  proof cases
    case incoming
    with ok show ?thesis
      by (simp add: fst_handleIncomingMessage pending_ok_track_request)
  next
    case outgoing
    with ok pending_ok_track_response [of s p n] show ?thesis
      by (auto simp: on_line_def split_def fst_handleOutgoingMessage)
  next
    case exit
    then show ?thesis
      by (simp add: on_child_exit_def on_process_exit_def split_def Let_def pending_ok_def)
  next
    case other
    with ok step_pending_same [of ev s] show ?thesis
      by (auto intro: pending_ok_same)
  qed
qed

lemma pending_ok_run: "pending_ok s \<Longrightarrow> pending_ok (fst (run evs s))"
  by (induction evs arbitrary: s) (simp_all add: fst_run_Cons pending_ok_step del: run.simps(2))

lemma pending_ok_new: "pending_ok (new_BridgeServer c)"
  by (simp add: pending_ok_def new_BridgeServer_def)

lemma pending_ok_example: "pending_ok example_session" "pending_ok example_pending"
  unfolding example_pending_def example_session_def
  by (intro pending_ok_step pending_ok_run pending_ok_new)+

section \<open>Resolving a pending request\<close>

lemma key_of_not_ref: "key_of i = Some k \<Longrightarrow> k \<noteq> KRef r"
  by (cases i) auto

lemma key_of_stringifies: "key_of i = Some k \<Longrightarrow> stringifies i"
  by (cases i) auto

lemma track_response_unmatched:
  "resolves parsed s = None \<Longrightarrow> track_response parsed now s = (s, [])"
  by (auto simp: resolves_def frame_key_def track_response_def split: option.splits)

lemma track_response_matched:
  assumes "frame_key parsed = Some k" and "map_of (pendingRequests s) k = Some p"
  shows "fst (track_response parsed now s) =
           s\<lparr>sessionAuthenticated :=
                sessionAuthenticated s \<or> (method p = JStr ''initialize'' \<and> \<not> error_payload parsed),
              pendingRequests := AList.delete k (pendingRequests s)\<rparr>"
    and "latencies (snd (track_response parsed now s)) = [(now - startTime p, method p)]"
    and "set (touched_spans (snd (track_response parsed now s))) = {span p}"
  using assms
  by (auto simp: frame_key_def track_response_def error_payload_def Let_def split: option.splits)

lemma resolvesE:
  assumes "resolves parsed s = Some p"
  obtains k where "frame_key parsed = Some k" and "map_of (pendingRequests s) k = Some p"
  using assms by (auto simp: resolves_def split: option.splits)

lemma track_request_tracked:
  assumes "member v ''id'' = Some i" and "key_of i = Some k"
    and "member v ''method'' = Some m" and "truthy m" and "stringifies m"
  shows "fst (track_request (Some v) now s) =
           s\<lparr>next_span := Suc (next_span s),
              pendingRequests :=
                AList.update k \<lparr>startTime = now, method = m, span = next_span s\<rparr>
                  (pendingRequests s)\<rparr>"
  using assms key_of_stringifies [OF assms(2)]
  by (auto simp: track_request_def Let_def)

lemma track_request_other_key:
  assumes "frame_key parsed \<noteq> Some k" and "\<forall>r. k \<noteq> KRef r"
  shows "map_of (pendingRequests (fst (track_request parsed now s))) k = map_of (pendingRequests s) k"
  using assms
  by (auto simp: track_request_def frame_key_def Let_def split_def update_conv'
           split: option.splits)

lemma track_response_other_key:
  assumes "frame_key parsed \<noteq> Some k"
  shows "map_of (pendingRequests (fst (track_response parsed now s))) k = map_of (pendingRequests s) k"
  using assms
  by (auto simp: track_response_def frame_key_def Let_def split_def delete_conv'
           split: option.splits)

lemma step_undisturbed:
  assumes "undisturbed k ev" and "\<forall>r. k \<noteq> KRef r"
  shows "map_of (pendingRequests (fst (step ev s))) k = map_of (pendingRequests s) k"
proof (cases ev)
  case (OnWsMessage m p n a)
  with assms show ?thesis
    by (simp add: fst_handleIncomingMessage track_request_other_key)
next
  case (OnStdoutLine l p n rs)
  with assms show ?thesis
    by (simp add: on_line_def split_def fst_handleOutgoingMessage track_response_other_key)
next
  case (OnChildExit h rs)
  with assms show ?thesis by simp
qed (use step_pending_same [of ev s] in auto)

lemma run_undisturbed:
  assumes "list_all (undisturbed k) evs" and "\<forall>r. k \<noteq> KRef r"
  shows "map_of (pendingRequests (fst (run evs s))) k = map_of (pendingRequests s) k"
  using assms
  by (induction evs arbitrary: s) (simp_all add: fst_run_Cons step_undisturbed del: run.simps(2))

lemma length_delete_present:
  "distinct (map fst ps) \<Longrightarrow> map_of ps k = Some v \<Longrightarrow> length (AList.delete k ps) + 1 = length ps"
proof (induction ps)
  case Nil
  then show ?case by simp
next
  case (Cons a ps)
  show ?case
  proof (cases "fst a = k")
    case True
    with Cons.prems have "k \<notin> fst ` set ps" by auto
    then have "AList.delete k ps = ps"
      by (simp add: delete_id)
    with True show ?thesis by (cases a) simp
  next
    case False
    with Cons show ?thesis by (cases a) auto
  qed
qed

lemma length_update_present:
  "map_of ps k = Some old \<Longrightarrow> length (AList.update k v ps) = length ps"
  by (induction ps) (auto split: if_splits)

section \<open>Admission of peers\<close>

lemma on_connection_busy:
  "activeConnection s \<noteq> None \<Longrightarrow>
     fst (on_connection ws penv child OPEN s) = s \<and>
     not_log (snd (on_connection ws penv child OPEN s))
       = [WsClose ws 1013 ''Server busy - single user mode''] \<and>
     gauge (snd (on_connection ws penv child OPEN s)) = []"
  by (auto simp: on_connection_def active_open_def)

lemma on_connection_admit:
  "activeConnection s = None \<Longrightarrow>
     activeConnection (fst (on_connection ws penv child rs s)) = Some ws \<and>
     gauge (snd (on_connection ws penv child rs s)) = [1]"
  by (simp add: on_connection_def active_open_def split_def Let_def ensureProcess_keeps
        ensureProcess_manager)

lemma run_attempts_busy:
  "activeConnection s \<noteq> None \<Longrightarrow>
     fst (run (attempts xs) s) = s \<and> not_log (snd (run (attempts xs) s)) = busy_closes xs
     \<and> gauge (snd (run (attempts xs) s)) = []"
proof (induction xs)
  case Nil
  then show ?case by (simp add: attempts_def busy_closes_def)
next
  case (Cons x xs)
  obtain ws penv child where x: "x = (ws, penv, child)" by (cases x)
  have a: "attempts (x # xs) = OnConnection ws penv child OPEN # attempts xs"
    by (simp add: attempts_def x)
  from Cons on_connection_busy [OF Cons.prems, of ws penv child] show ?case
    unfolding a by (simp add: fst_run_Cons snd_run_Cons busy_closes_def x del: run.simps(2))
qed

text \<open>
  The admission check by itself. Take any sequence of connection attempts, each arriving
  while the socket the session holds, if there is one, reads \<open>OPEN\<close>. When the session
  holds a socket, every attempt is closed with code 1013 and the reason
  \<open>Server busy - single user mode\<close>, nothing else is done but logging, and the state is
  unchanged. When it holds none, the first attempt is admitted and every later one is
  refused.
\<close>

lemma admission_check:
  assumes "run (attempts xs) s = (s', e)"
  shows "gauge e = (if activeConnection s = None \<and> xs \<noteq> [] then [1] else []) \<and>
         (activeConnection s \<noteq> None \<longrightarrow> s' = s \<and> not_log e = busy_closes xs) \<and>
         (activeConnection s = None \<longrightarrow>
            (case xs of
               [] \<Rightarrow> s' = s
             | (ws, penv, child) # ys \<Rightarrow>
                 s' = fst (on_connection ws penv child OPEN s) \<and>
                 activeConnection s' = Some ws \<and>
                 not_log e = not_log (snd (on_connection ws penv child OPEN s)) @ busy_closes ys))"
proof (cases "activeConnection s")
  case (Some a)
  with assms run_attempts_busy [of s xs] show ?thesis by simp
next
  case None
  show ?thesis
  proof (cases xs)
    case Nil
    with assms None show ?thesis by (simp add: attempts_def)
  next
    case (Cons x ys)
    obtain ws penv child where x: "x = (ws, penv, child)" by (cases x)
    have a: "attempts xs = OnConnection ws penv child OPEN # attempts ys"
      by (simp add: attempts_def x Cons)
    let ?s1 = "fst (on_connection ws penv child OPEN s)"
    from on_connection_admit [OF None, of ws penv child OPEN]
    have 1: "activeConnection ?s1 = Some ws" "gauge (snd (on_connection ws penv child OPEN s)) = [1]"
      by simp_all
    then have "activeConnection ?s1 \<noteq> None" by simp
    from run_attempts_busy [OF this, of ys]
    have 2: "fst (run (attempts ys) ?s1) = ?s1" "gauge (snd (run (attempts ys) ?s1)) = []"
      "not_log (snd (run (attempts ys) ?s1)) = busy_closes ys"
      by simp_all
    from assms have "s' = fst (run (attempts xs) s)" "e = snd (run (attempts xs) s)"
      by simp_all
    then have "s' = ?s1" "e = snd (on_connection ws penv child OPEN s) @ snd (run (attempts ys) ?s1)"
      unfolding a using 2(1) by (simp_all add: fst_run_Cons snd_run_Cons del: run.simps(2))
    with 1 2 None Cons x show ?thesis
      by simp
  qed
qed

text \<open>
  C2 (at most one peer is admitted at a time). The code does not keep this. The check
  above looks only at the socket the session holds, and the listener on \<open>close\<close> clears
  that field whichever admitted socket closed. Socket 1 is admitted; the process exits,
  so the server closes socket 1, which reads \<open>CLOSING\<close> from then on; socket 2 arrives and
  is admitted in its place; the \<open>close\<close> of socket 1 then arrives and clears the field
  that holds socket 2; socket 3 arrives and is admitted as well. The gauge of active
  connections has gone up three times and down once, the only socket the server has
  closed is socket 1, and no attempt was refused with the busy code: sockets 2 and 3 are
  admitted together.
\<close>

theorem C2_two_peers_admitted:
  "gauge (snd (run [OnStart,
                    OnConnection 1 example_env example_child OPEN,
                    OnChildExit 0 OPEN,
                    OnConnection 2 example_env example_child CLOSING,
                    OnWsClose,
                    OnConnection 3 example_env example_child OPEN]
                 (new_BridgeServer example_config))) = [1, 1, - 1, 1] \<and>
   ws_closes (snd (run [OnStart,
                    OnConnection 1 example_env example_child OPEN,
                    OnChildExit 0 OPEN,
                    OnConnection 2 example_env example_child CLOSING,
                    OnWsClose,
                    OnConnection 3 example_env example_child OPEN]
                 (new_BridgeServer example_config))) = [(1, 1011, ''Process exited'')] \<and>
   activeConnection (fst (run [OnStart,
                    OnConnection 1 example_env example_child OPEN,
                    OnChildExit 0 OPEN,
                    OnConnection 2 example_env example_child CLOSING,
                    OnWsClose,
                    OnConnection 3 example_env example_child OPEN]
                 (new_BridgeServer example_config))) = Some 3"
  by (simp add: model_defs example_defs)

section \<open>Authentication\<close>

lemma track_request_auth:
  "sessionAuthenticated (fst (track_request parsed now s)) = sessionAuthenticated s"
  by (auto simp: track_request_def Let_def split_def split: option.splits)

lemma track_response_auth_mono:
  "sessionAuthenticated s \<Longrightarrow> sessionAuthenticated (fst (track_response parsed now s))"
  by (auto simp: track_response_def Let_def split_def split: option.splits)

lemma auth_only_by_response:
  assumes "\<not> sessionAuthenticated s" and "sessionAuthenticated (fst (track_response parsed now s))"
  shows "\<exists>p. resolves parsed s = Some p \<and> method p = JStr ''initialize'' \<and> \<not> error_payload parsed"
proof (cases "resolves parsed s")
  case None
  with assms show ?thesis by (simp add: track_response_unmatched)
next
  case (Some p)
  then obtain k where k: "frame_key parsed = Some k" "map_of (pendingRequests s) k = Some p"
    by (rule resolvesE)
  from assms track_response_matched(1) [OF k, of now] Some show ?thesis
    by simp
qed

lemma step_auth_other:
  assumes "case ev of OnStdoutLine l p n rs \<Rightarrow> False | OnWsClose \<Rightarrow> False | _ \<Rightarrow> True"
  shows "sessionAuthenticated (fst (step ev s)) = sessionAuthenticated s"
  using assms
  by (cases ev)
     (auto simp: start_def stop_def on_connection_def on_process_error_def on_child_exit_def
                 on_process_exit_def Let_def split_def ensureProcess_keeps
                 fst_handleIncomingMessage track_request_auth
           split: option.splits)

lemma step_auth_mono:
  assumes "sessionAuthenticated s" and "ev \<noteq> OnWsClose"
  shows "sessionAuthenticated (fst (step ev s))"
proof (cases ev)
  case (OnStdoutLine l p n rs)
  with assms track_response_auth_mono [of s p n] show ?thesis
    by (auto simp: on_line_def split_def fst_handleOutgoingMessage)
qed (use assms step_auth_other [of ev s] in auto)

lemma auth_flips_zero:
  "sessionAuthenticated s \<Longrightarrow> OnWsClose \<notin> set evs \<Longrightarrow> auth_flips evs s = 0"
  by (induction evs arbitrary: s) (auto simp: step_auth_mono)

lemma auth_flips_le_1: "OnWsClose \<notin> set evs \<Longrightarrow> auth_flips evs s \<le> 1"
proof (induction evs arbitrary: s)
  case Nil
  then show ?case by simp
next
  case (Cons ev evs)
  show ?case
  proof (cases "sessionAuthenticated (fst (step ev s))")
    case True
    with Cons.prems have "auth_flips evs (fst (step ev s)) = 0"
      by (simp add: auth_flips_zero)
    then show ?thesis by simp
  next
    case False
    with Cons show ?thesis by simp
  qed
qed

lemma step_sets_auth:
  assumes "\<not> sessionAuthenticated s" and "sessionAuthenticated (fst (step ev s))"
  shows "\<exists>line parsed now rs p.
           ev = OnStdoutLine line parsed now rs \<and> trim line \<noteq> [] \<and>
           resolves parsed s = Some p \<and> method p = JStr ''initialize'' \<and> \<not> error_payload parsed"
proof (cases ev)
  case (OnStdoutLine l p n rs)
  with assms have t: "trim l \<noteq> []"
    by (auto simp: on_line_def split: if_splits)
  with assms OnStdoutLine have "sessionAuthenticated (fst (track_response p n s))"
    by (simp add: on_line_def split_def fst_handleOutgoingMessage)
  with assms(1) OnStdoutLine t show ?thesis
    by (simp add: auth_only_by_response)
next
  case OnWsClose
  with assms show ?thesis
    by (auto simp: on_close_def Let_def split_def split: option.splits)
qed (use assms step_auth_other [of ev s] in auto)

text \<open>
  C3 (authentication). Whatever the event, \<open>sessionAuthenticated\<close> goes from false to
  true only when the event is a line of the process that resolves a pending request
  whose method is \<open>initialize\<close> and that carries no truthy \<open>error\<close>. When
  \<open>handleOutgoingMessage\<close> resolves a pending request, the flag afterwards is true
  exactly when it was true before or the method is \<open>initialize\<close> and there is no
  \<open>error\<close>: another method, or an \<open>error\<close>, never sets it. And along any run of events
  with no close of the peer in it (one session), the flag goes from false to true at
  most once.
\<close>

theorem C3_authenticated:
  "(\<not> sessionAuthenticated s \<and> sessionAuthenticated (fst (step ev s)) \<longrightarrow>
      (\<exists>line parsed now rs p.
         ev = OnStdoutLine line parsed now rs \<and> trim line \<noteq> [] \<and>
         resolves parsed s = Some p \<and> method p = JStr ''initialize'' \<and> \<not> error_payload parsed)) \<and>
   (resolves parsed s = Some p \<longrightarrow>
      sessionAuthenticated (fst (handleOutgoingMessage data parsed now rs s)) =
        (sessionAuthenticated s \<or> (method p = JStr ''initialize'' \<and> \<not> error_payload parsed))) \<and>
   (OnWsClose \<notin> set evs \<longrightarrow> auth_flips evs s \<le> 1)"
proof (intro conjI impI)
  assume "\<not> sessionAuthenticated s \<and> sessionAuthenticated (fst (step ev s))"
  then show "\<exists>line parsed now rs p.
         ev = OnStdoutLine line parsed now rs \<and> trim line \<noteq> [] \<and>
         resolves parsed s = Some p \<and> method p = JStr ''initialize'' \<and> \<not> error_payload parsed"
    using step_sets_auth [of s ev] by blast
next
  assume "resolves parsed s = Some p"
  then obtain k where k: "frame_key parsed = Some k" "map_of (pendingRequests s) k = Some p"
    by (rule resolvesE)
  show "sessionAuthenticated (fst (handleOutgoingMessage data parsed now rs s)) =
        (sessionAuthenticated s \<or> (method p = JStr ''initialize'' \<and> \<not> error_payload parsed))"
    by (simp add: fst_handleOutgoingMessage track_response_matched(1) [OF k])
next
  assume "OnWsClose \<notin> set evs"
  then show "auth_flips evs s \<le> 1"
    by (rule auth_flips_le_1)
qed

theorem C3_authenticated_witness:
  "\<not> sessionAuthenticated example_pending \<and>
   sessionAuthenticated
     (fst (step (OnStdoutLine ''result'' (Some initialize_result) 130 OPEN) example_pending)) \<and>
   resolves (Some initialize_result) example_pending
     = Some \<lparr>startTime = 100, method = JStr ''initialize'', span = 0\<rparr> \<and>
   \<not> error_payload (Some initialize_result) \<and>
   OnWsClose \<notin> set [OnStdoutLine ''result'' (Some initialize_result) 130 OPEN,
                     OnStdoutLine ''result'' (Some initialize_result) 140 OPEN] \<and>
   auth_flips [OnStdoutLine ''result'' (Some initialize_result) 130 OPEN,
               OnStdoutLine ''result'' (Some initialize_result) 140 OPEN] example_pending = 1"
  using C3_authenticated [of example_pending
          "OnStdoutLine ''result'' (Some initialize_result) 130 OPEN"
          "Some initialize_result" "\<lparr>startTime = 100, method = JStr ''initialize'', span = 0\<rparr>"
          "''result''" 130 OPEN
          "[OnStdoutLine ''result'' (Some initialize_result) 130 OPEN,
            OnStdoutLine ''result'' (Some initialize_result) 140 OPEN]"]
  by (simp add: example_pending_eq model_defs example_defs resolves_def frame_key_def
        error_payload_def)

section \<open>Latency of a request\<close>

text \<open>
  C4 (a pending request is resolved once). A frame from the peer with the primitive
  \<open>id\<close> \<open>i\<close> (key \<open>k\<close>) and a method \<open>m\<close> creates the entry
  \<open>k \<mapsto> (t0, m, span)\<close>. After any events that leave key \<open>k\<close> alone, the first line of the
  process whose \<open>id\<close> is \<open>k\<close> records exactly one latency sample, \<open>t1 - t0\<close> tagged \<open>m\<close>,
  and removes exactly that entry: every other key keeps its entry and the \<open>Map\<close> is one
  entry shorter. A further line with the same \<open>id\<close> records no sample and leaves the
  \<open>Map\<close> as it is. The \<open>id\<close> is a primitive value, as the strings and numbers of the
  wire format are; an array or an object is a key by identity, which no later frame has.
\<close>

theorem C4_request_resolved_once:
  assumes ok: "pending_ok s0"
    and frame: "member v ''id'' = Some i" "key_of i = Some k"
               "member v ''method'' = Some m" "truthy m" "stringifies m"
    and request: "step (OnWsMessage message (Some v) t0 accepted) s0 = (s1, e1)"
    and between: "list_all (undisturbed k) evs" "run evs s1 = (s2, e2)"
    and reply: "frame_key parsed = Some k" "trim line \<noteq> []"
               "step (OnStdoutLine line parsed t1 rs) s2 = (s3, e3)"
    and again: "frame_key parsed' = Some k"
               "step (OnStdoutLine line' parsed' t2 rs') s3 = (s4, e4)"
  shows "map_of (pendingRequests s1) k = Some \<lparr>startTime = t0, method = m, span = next_span s0\<rparr> \<and>
         latencies e3 = [(t1 - t0, m)] \<and>
         map_of (pendingRequests s3) = (map_of (pendingRequests s2))(k := None) \<and>
         length (pendingRequests s3) + 1 = length (pendingRequests s2) \<and>
         latencies e4 = [] \<and> pendingRequests s4 = pendingRequests s3"
proof -
  let ?p = "\<lparr>startTime = t0, method = m, span = next_span s0\<rparr>"
  have s1: "s1 = fst (track_request (Some v) t0 s0)"
    using request fst_handleIncomingMessage [of message "Some v" t0 accepted s0] by simp
  then have p1: "map_of (pendingRequests s1) k = Some ?p"
    by (simp add: track_request_tracked [OF frame] update_conv')
  have noref: "\<forall>r. k \<noteq> KRef r"
    using frame(2) by (simp add: key_of_not_ref)
  have s2: "s2 = fst (run evs s1)"
    using between(2) by simp
  then have p2: "map_of (pendingRequests s2) k = Some ?p"
    using run_undisturbed [OF between(1) noref, of s1] p1 by simp
  have ok2: "pending_ok s2"
    unfolding s2 s1 using ok
    by (intro pending_ok_run pending_ok_track_request)
  have s3: "s3 = fst (track_response parsed t1 s2)"
    and e3: "latencies e3 = latencies (snd (track_response parsed t1 s2))"
    using reply(2,3)
    by (auto simp: on_line_def handleOutgoingMessage_def split_def Let_def split: option.splits)
  have l3: "latencies e3 = [(t1 - t0, m)]"
    unfolding e3 by (simp add: track_response_matched(2) [OF reply(1) p2])
  have q3: "pendingRequests s3 = AList.delete k (pendingRequests s2)"
    unfolding s3 by (simp add: track_response_matched(1) [OF reply(1) p2])
  then have m3: "map_of (pendingRequests s3) = (map_of (pendingRequests s2))(k := None)"
    by (simp add: delete_conv')
  have n3: "length (pendingRequests s3) + 1 = length (pendingRequests s2)"
    unfolding q3 using ok2 p2 by (intro length_delete_present) (simp_all add: pending_ok_def)
  have "resolves parsed' s3 = None"
    using again(1) m3 by (simp add: resolves_def)
  then have t4: "track_response parsed' t2 s3 = (s3, [])"
    by (rule track_response_unmatched)
  with again(2) have "latencies e4 = []" "pendingRequests s4 = pendingRequests s3"
    by (auto simp: on_line_def handleOutgoingMessage_def split_def Let_def
             split: option.splits if_splits)
  with p1 l3 m3 n3 show ?thesis by simp
qed

theorem C4_request_resolved_once_witness:
  "pending_ok example_session \<and>
   member initialize_request ''id'' = Some (JNum 1) \<and> key_of (JNum 1) = Some (KNum 1) \<and>
   member initialize_request ''method'' = Some (JStr ''initialize'') \<and>
   truthy (JStr ''initialize'') \<and> stringifies (JStr ''initialize'') \<and>
   list_all (undisturbed (KNum 1))
     [OnStderrData ''starting'', OnWsMessage ''session'' (Some session_request) 110 True] \<and>
   frame_key (Some initialize_result) = Some (KNum 1) \<and> trim ''result'' \<noteq> [] \<and>
   latencies (snd (step (OnStdoutLine ''result'' (Some initialize_result) 130 OPEN)
     (fst (run [OnStderrData ''starting'', OnWsMessage ''session'' (Some session_request) 110 True]
       (fst (step (OnWsMessage ''initialize'' (Some initialize_request) 100 True)
          example_session))))))
     = [(30, JStr ''initialize'')] \<and>
   pendingRequests (fst (step (OnStdoutLine ''result'' (Some initialize_result) 130 OPEN)
     (fst (run [OnStderrData ''starting'', OnWsMessage ''session'' (Some session_request) 110 True]
       (fst (step (OnWsMessage ''initialize'' (Some initialize_request) 100 True)
          example_session))))))
     = [(KNum 2, \<lparr>startTime = 110, method = JStr ''session/new'', span = 1\<rparr>)] \<and>
   latencies (snd (step (OnStdoutLine ''result'' (Some initialize_result) 140 OPEN)
     (fst (step (OnStdoutLine ''result'' (Some initialize_result) 130 OPEN)
       (fst (run [OnStderrData ''starting'', OnWsMessage ''session'' (Some session_request) 110 True]
         (fst (step (OnWsMessage ''initialize'' (Some initialize_request) 100 True)
            example_session))))))))
     = []"
  using C4_request_resolved_once [of example_session initialize_request "JNum 1" "KNum 1"
          "JStr ''initialize''" "''initialize''" 100 True
          "fst (step (OnWsMessage ''initialize'' (Some initialize_request) 100 True) example_session)"
          "snd (step (OnWsMessage ''initialize'' (Some initialize_request) 100 True) example_session)"
          "[OnStderrData ''starting'', OnWsMessage ''session'' (Some session_request) 110 True]"
          "fst (run [OnStderrData ''starting'', OnWsMessage ''session'' (Some session_request) 110 True]
             (fst (step (OnWsMessage ''initialize'' (Some initialize_request) 100 True)
                example_session)))"
          "snd (run [OnStderrData ''starting'', OnWsMessage ''session'' (Some session_request) 110 True]
             (fst (step (OnWsMessage ''initialize'' (Some initialize_request) 100 True)
                example_session)))"
          "Some initialize_result" "''result''" 130 OPEN
          "fst (step (OnStdoutLine ''result'' (Some initialize_result) 130 OPEN)
             (fst (run [OnStderrData ''starting'', OnWsMessage ''session'' (Some session_request) 110 True]
               (fst (step (OnWsMessage ''initialize'' (Some initialize_request) 100 True)
                  example_session)))))"
          "snd (step (OnStdoutLine ''result'' (Some initialize_result) 130 OPEN)
             (fst (run [OnStderrData ''starting'', OnWsMessage ''session'' (Some session_request) 110 True]
               (fst (step (OnWsMessage ''initialize'' (Some initialize_request) 100 True)
                  example_session)))))"
          "Some initialize_result" "''result''" 140 OPEN
          "fst (step (OnStdoutLine ''result'' (Some initialize_result) 140 OPEN)
            (fst (step (OnStdoutLine ''result'' (Some initialize_result) 130 OPEN)
             (fst (run [OnStderrData ''starting'', OnWsMessage ''session'' (Some session_request) 110 True]
               (fst (step (OnWsMessage ''initialize'' (Some initialize_request) 100 True)
                  example_session)))))))"
          "snd (step (OnStdoutLine ''result'' (Some initialize_result) 140 OPEN)
            (fst (step (OnStdoutLine ''result'' (Some initialize_result) 130 OPEN)
             (fst (run [OnStderrData ''starting'', OnWsMessage ''session'' (Some session_request) 110 True]
               (fst (step (OnWsMessage ''initialize'' (Some initialize_request) 100 True)
                  example_session)))))))"]
        pending_ok_example(1)
  by (simp add: example_session_eq model_defs example_defs frame_key_def)

section \<open>Exit of the process\<close>

text \<open>
  C5 (exit of the process). When the \<open>exit\<close> event of a process is handled, the \<open>Map\<close>
  of pending requests becomes empty, and the span operations performed are exactly, for
  each pending request in turn, setting the error status \<open>Process exited\<close> on its span
  and ending it: as many spans are ended as there were pending requests (and they are
  different spans, in a state whose pending requests are well formed). The only socket
  closed is the active one, with code 1011 and the reason \<open>Process exited\<close>, when it
  reads \<open>OPEN\<close>.
\<close>

theorem C5_process_exit:
  "step (OnChildExit h rs) s = (s', e) \<Longrightarrow>
     pendingRequests s' = [] \<and>
     span_ops e = concat (map (\<lambda>(k, pending).
                     [SpanSetStatus (span pending) process_exited, SpanEnd (span pending)])
                   (pendingRequests s)) \<and>
     ended_spans e = spans_of (pendingRequests s) \<and>
     length (ended_spans e) = length (pendingRequests s) \<and>
     (pending_ok s \<longrightarrow> distinct (ended_spans e)) \<and>
     ws_closes e = (case activeConnection s of
                      None \<Rightarrow> []
                    | Some ws \<Rightarrow> if rs = OPEN then [(ws, 1011, ''Process exited'')] else [])"
  by (auto simp: on_child_exit_def on_process_exit_def cleanup_def process_exited_def
                 pending_ok_def spans_of_def
           split: prod.splits option.splits if_splits)

theorem C5_process_exit_witness:
  "pending_ok (fst (step (OnWsMessage ''session'' (Some session_request) 110 True) example_pending)) \<and>
   pendingRequests
     (fst (step (OnWsMessage ''session'' (Some session_request) 110 True) example_pending))
     = [(KNum 1, \<lparr>startTime = 100, method = JStr ''initialize'', span = 0\<rparr>),
        (KNum 2, \<lparr>startTime = 110, method = JStr ''session/new'', span = 1\<rparr>)] \<and>
   pendingRequests (fst (step (OnChildExit 0 OPEN)
     (fst (step (OnWsMessage ''session'' (Some session_request) 110 True) example_pending)))) = [] \<and>
   span_ops (snd (step (OnChildExit 0 OPEN)
     (fst (step (OnWsMessage ''session'' (Some session_request) 110 True) example_pending))))
     = [SpanSetStatus 0 process_exited, SpanEnd 0, SpanSetStatus 1 process_exited, SpanEnd 1] \<and>
   ws_closes (snd (step (OnChildExit 0 OPEN)
     (fst (step (OnWsMessage ''session'' (Some session_request) 110 True) example_pending))))
     = [(1, 1011, ''Process exited'')]"
  using C5_process_exit [of 0 OPEN
          "fst (step (OnWsMessage ''session'' (Some session_request) 110 True) example_pending)"
          "fst (step (OnChildExit 0 OPEN)
             (fst (step (OnWsMessage ''session'' (Some session_request) 110 True) example_pending)))"
          "snd (step (OnChildExit 0 OPEN)
             (fst (step (OnWsMessage ''session'' (Some session_request) 110 True) example_pending)))"]
        pending_ok_step [OF pending_ok_example(2),
          of "OnWsMessage ''session'' (Some session_request) 110 True"]
  by (simp add: example_pending_eq model_defs example_defs process_exited_def)

section \<open>Close of the peer\<close>

lemma track_request_manager:
  "processManager (fst (track_request parsed now s)) = processManager s \<and>
   next_manager (fst (track_request parsed now s)) = next_manager s"
  by (auto simp: track_request_def Let_def split_def split: option.splits)

lemma track_response_manager:
  "processManager (fst (track_response parsed now s)) = processManager s \<and>
   next_manager (fst (track_response parsed now s)) = next_manager s"
  by (auto simp: track_response_def Let_def split_def split: option.splits)

lemma step_managers:
  "managers_ok s \<Longrightarrow> managers_ok (fst (step ev s))"
  "next_manager s \<le> next_manager (fst (step ev s))"
  by (cases ev;
      auto simp: managers_ok_def start_def stop_def on_connection_def on_close_def
                 on_process_error_def on_child_exit_def on_process_exit_def on_line_def
                 fst_handleIncomingMessage fst_handleOutgoingMessage
                 track_request_manager track_response_manager ensureProcess_manager
                 Let_def split_def
           split: option.splits)+

lemma run_managers:
  "managers_ok s \<Longrightarrow> managers_ok (fst (run evs s))"
  "next_manager s \<le> next_manager (fst (run evs s))"
proof (induction evs arbitrary: s)
  case Nil
  { case 1 then show ?case by simp }
  { case 2 then show ?case by simp }
next
  case (Cons ev evs)
  { case 1
    then show ?case
      using Cons.IH(1) [of "fst (step ev s)"]
      by (simp add: fst_run_Cons step_managers del: run.simps(2)) }
  { case 2
    show ?case
      using Cons.IH(2) [of "fst (step ev s)"] step_managers(2) [of s ev]
      by (simp add: fst_run_Cons del: run.simps(2)) }
qed

lemma managers_ok_new: "managers_ok (new_BridgeServer c)"
  by (simp add: managers_ok_def new_BridgeServer_def)

text \<open>Every state the server reaches from its construction is well formed.\<close>

lemma reachable_ok:
  "pending_ok (fst (run evs (new_BridgeServer c)))"
  "managers_ok (fst (run evs (new_BridgeServer c)))"
  by (simp_all add: pending_ok_run pending_ok_new run_managers(1) managers_ok_new)

lemma managers_ok_example: "managers_ok example_session"
  unfolding example_session_def by (intro run_managers(1) managers_ok_new)

lemma on_close_result:
  "activeConnection (fst (on_close s)) = None \<and> processManager (fst (on_close s)) = None \<and>
   \<not> sessionAuthenticated (fst (on_close s)) \<and> next_manager (fst (on_close s)) = next_manager s \<and>
   gauge (snd (on_close s)) = [- 1] \<and>
   kills (snd (on_close s)) = (case processManager s of
                       None \<Rightarrow> []
                     | Some h \<Rightarrow> (case process (managers s h) of
                                    None \<Rightarrow> []
                                  | Some c \<Rightarrow> [(h, SIGTERM)]))"
  by (auto simp: on_close_def kill_def Let_def split_def split: option.splits)

text \<open>
  C6 (close of the peer). The handler of the peer's \<open>close\<close> lowers the gauge of active
  connections by one, clears \<open>activeConnection\<close> and \<open>processManager\<close>, sets
  \<open>sessionAuthenticated\<close> to false, and, whatever the flag was, sends SIGTERM once to the
  process of the Process Controller it held (nothing when it held none, or one whose
  process is already gone). Whatever events follow, the next peer that is admitted gets
  a Process Controller created at that moment, different from the one the closed session
  had, and one new process is started for it.
\<close>

theorem C6_peer_close:
  assumes ok: "managers_ok s"
    and close: "step OnWsClose s = (s1, e1)"
    and later: "run evs s1 = (s2, e2)"
    and admitted: "\<not> active_open rs s2"
    and connect: "step (OnConnection ws penv child rs) s2 = (s3, e3)"
  shows "gauge e1 = [- 1] \<and> activeConnection s1 = None \<and> processManager s1 = None \<and>
         \<not> sessionAuthenticated s1 \<and>
         kills e1 = (case processManager s of
                       None \<Rightarrow> []
                     | Some h \<Rightarrow> (case process (managers s h) of
                                    None \<Rightarrow> []
                                  | Some c \<Rightarrow> [(h, SIGTERM)])) \<and>
         processManager s3 = Some (next_manager s2) \<and>
         processManager s \<noteq> Some (next_manager s2) \<and>
         os_spawns e3 = [next_manager s2] \<and>
         process (managers s3 (next_manager s2)) = Some child"
proof -
  have c: "gauge e1 = [- 1] \<and> activeConnection s1 = None \<and> processManager s1 = None \<and>
         \<not> sessionAuthenticated s1 \<and>
         kills e1 = (case processManager s of
                       None \<Rightarrow> []
                     | Some h \<Rightarrow> (case process (managers s h) of
                                    None \<Rightarrow> []
                                  | Some c \<Rightarrow> [(h, SIGTERM)]))"
    and n1: "next_manager s1 = next_manager s"
    using close on_close_result [of s] by auto
  have "next_manager s1 \<le> next_manager s2"
    using later run_managers(2) [of s1 evs] by simp
  with n1 ok have old: "processManager s \<noteq> Some (next_manager s2)"
    by (auto simp: managers_ok_def split: option.splits)
  have s3: "s3 = fst (ensureProcess penv child (s2\<lparr>activeConnection := Some ws\<rparr>))"
    and e3: "os_spawns e3 =
               os_spawns (snd (ensureProcess penv child (s2\<lparr>activeConnection := Some ws\<rparr>)))"
    using connect admitted by (auto simp: on_connection_def split_def Let_def)
  from c old show ?thesis
    unfolding s3 e3
    using ensureProcess_manager [of penv child "s2\<lparr>activeConnection := Some ws\<rparr>"]
    by simp
qed

theorem C6_peer_close_witness:
  "managers_ok example_session \<and>
   processManager example_session = Some 0 \<and>
   gauge (snd (step OnWsClose example_session)) = [- 1] \<and>
   kills (snd (step OnWsClose example_session)) = [(0, SIGTERM)] \<and>
   processManager (fst (step OnWsClose example_session)) = None \<and>
   \<not> active_open OPEN (fst (run [OnStderrData ''bye''] (fst (step OnWsClose example_session)))) \<and>
   processManager (fst (step (OnConnection 2 example_env example_child OPEN)
     (fst (run [OnStderrData ''bye''] (fst (step OnWsClose example_session)))))) = Some 1 \<and>
   os_spawns (snd (step (OnConnection 2 example_env example_child OPEN)
     (fst (run [OnStderrData ''bye''] (fst (step OnWsClose example_session)))))) = [1]"
  using C6_peer_close [of example_session
          "fst (step OnWsClose example_session)" "snd (step OnWsClose example_session)"
          "[OnStderrData ''bye'']"
          "fst (run [OnStderrData ''bye''] (fst (step OnWsClose example_session)))"
          "snd (run [OnStderrData ''bye''] (fst (step OnWsClose example_session)))"
          OPEN 2 example_env example_child
          "fst (step (OnConnection 2 example_env example_child OPEN)
             (fst (run [OnStderrData ''bye''] (fst (step OnWsClose example_session)))))"
          "snd (step (OnConnection 2 example_env example_child OPEN)
             (fst (run [OnStderrData ''bye''] (fst (step OnWsClose example_session)))))"]
        managers_ok_example
  by (simp add: example_session_eq model_defs example_defs)

section \<open>Requests that repeat an id\<close>

lemma touched_other_parts [simp]:
  "touched_spans (kill h pm) = []"
  "touched_spans (snd (send h m a pm)) = []"
  "touched_spans (snd (track_request parsed now s)) = []"
  "touched_spans (snd (on_child_exit h pm)) = []"
  by (auto simp: kill_def send_def track_request_def on_child_exit_def cleanup_def Let_def
                 split_def split: option.splits)

lemma touched_track_response:
  "set (touched_spans (snd (track_response parsed now s))) \<subseteq> set (spans_of (pendingRequests s))"
proof (cases "resolves parsed s")
  case None
  then show ?thesis by (simp add: track_response_unmatched)
next
  case (Some p)
  then obtain k where k: "frame_key parsed = Some k" "map_of (pendingRequests s) k = Some p"
    by (rule resolvesE)
  from k(2) have "span p \<in> set (spans_of (pendingRequests s))"
    by (rule span_of_entry)
  with track_response_matched(3) [OF k, of now] show ?thesis
    by simp
qed

lemma touched_on_process_exit:
  "set (touched_spans (snd (on_process_exit rs s))) \<subseteq> set (spans_of (pendingRequests s))"
  by (auto simp: on_process_exit_def split: option.splits)

lemma touched_step_other:
  assumes "case ev of OnWsMessage m p n a \<Rightarrow> False | OnStdoutLine l p n rs \<Rightarrow> False
           | OnChildExit h rs \<Rightarrow> False | _ \<Rightarrow> True"
  shows "touched_spans (snd (step ev s)) = []"
  using assms
  by (cases ev)
     (auto simp: start_def stop_def on_connection_def on_close_def on_process_error_def
                 on_ws_error_def on_server_error_def on_stderr_def on_child_error_def
                 kill_timeout_def Let_def
                 split_def ensureProcess_manager
           split: option.splits)

lemma abandoned_update:
  assumes "abandoned sp s"
    and "pendingRequests s' =
           AList.update k \<lparr>startTime = t, method = m, span = next_span s\<rparr> (pendingRequests s)"
    and "next_span s' = Suc (next_span s)"
  shows "abandoned sp s'"
proof -
  from assms(1) have "sp \<noteq> next_span s" "sp \<notin> set (spans_of (pendingRequests s))"
    by (auto simp: abandoned_def)
  then have "sp \<notin> set (spans_of (pendingRequests s'))"
    unfolding assms(2)
    using spans_update_subset
            [of k "\<lparr>startTime = t, method = m, span = next_span s\<rparr>" "pendingRequests s"]
    by auto
  with assms show ?thesis by (simp add: abandoned_def)
qed

lemma abandoned_same:
  "abandoned sp s \<Longrightarrow> pendingRequests s' = pendingRequests s \<Longrightarrow> next_span s \<le> next_span s'
     \<Longrightarrow> abandoned sp s'"
  by (simp add: abandoned_def)

lemma abandoned_track_request:
  "abandoned sp s \<Longrightarrow> abandoned sp (fst (track_request parsed now s))"
  by (auto simp: track_request_def Let_def split: option.splits prod.splits
           intro: abandoned_update [of sp s] abandoned_same [of sp s])

text \<open>A span that no pending request holds is never given a status nor ended.\<close>

lemma abandoned_step:
  assumes ab: "abandoned sp s"
  shows "abandoned sp (fst (step ev s)) \<and> sp \<notin> set (touched_spans (snd (step ev s)))"
proof -
  consider (incoming) m p n a where "ev = OnWsMessage m p n a"
    | (outgoing) l p n rs where "ev = OnStdoutLine l p n rs"
    | (exit) h rs where "ev = OnChildExit h rs"
    | (other) "case ev of OnWsMessage m p n a \<Rightarrow> False | OnStdoutLine l p n rs \<Rightarrow> False
               | OnChildExit h rs \<Rightarrow> False | _ \<Rightarrow> True"
    by (cases ev) auto
  then show ?thesis
  proof cases
    case incoming
    have "abandoned sp (fst (track_request p n s))"
      using ab by (rule abandoned_track_request)
    with incoming show ?thesis
      by (simp add: fst_handleIncomingMessage handleIncomingMessage_def split_def Let_def
               split: option.splits)
  next
    case outgoing
    have "set (spans_of (pendingRequests (fst (track_response p n s))))
            \<subseteq> set (spans_of (pendingRequests s))"
      using spans_delete_subset [of _ "pendingRequests s"]
      by (auto simp: track_response_def Let_def split_def split: option.splits)
    moreover have "next_span (fst (track_response p n s)) = next_span s"
      by (auto simp: track_response_def Let_def split_def split: option.splits)
    ultimately have "abandoned sp (fst (track_response p n s))"
      using ab by (auto simp: abandoned_def)
    moreover have "sp \<notin> set (touched_spans (snd (track_response p n s)))"
      using ab touched_track_response [of p n s] by (auto simp: abandoned_def)
    ultimately show ?thesis
      using outgoing ab
      by (auto simp: on_line_def fst_handleOutgoingMessage handleOutgoingMessage_def split_def
                     Let_def
               split: option.splits)
  next
    case exit
    have "abandoned sp (fst (on_process_exit rs s'))" if "next_span s' = next_span s" for s'
      using ab that by (simp add: abandoned_def on_process_exit_def)
    moreover have "sp \<notin> set (touched_spans (snd (on_process_exit rs s')))"
      if "pendingRequests s' = pendingRequests s" for s'
      using ab that touched_on_process_exit [of rs s'] by (auto simp: abandoned_def)
    ultimately show ?thesis
      using exit by (simp add: split_def Let_def)
  next
    case other
    with ab step_pending_same [of ev s] touched_step_other [of ev s] show ?thesis
      by (simp add: abandoned_def)
  qed
qed

lemma abandoned_run:
  "abandoned sp s \<Longrightarrow> sp \<notin> set (touched_spans (snd (run evs s)))"
proof (induction evs arbitrary: s)
  case Nil
  then show ?case by simp
next
  case (Cons ev evs)
  from abandoned_step [OF Cons.prems, of ev] Cons.IH [of "fst (step ev s)"]
  show ?case
    by (simp add: snd_run_Cons del: run.simps(2))
qed

lemma replaced_span_gone:
  "distinct (map fst ps) \<Longrightarrow> distinct (spans_of ps) \<Longrightarrow> map_of ps k = Some old
     \<Longrightarrow> span v \<noteq> span old \<Longrightarrow> span old \<notin> set (spans_of (AList.update k v ps))"
proof (induction ps)
  case Nil
  then show ?case by simp
next
  case (Cons a ps)
  obtain k' p' where a: "a = (k', p')" by (cases a)
  show ?case
  proof (cases "k' = k")
    case True
    with Cons.prems a show ?thesis by auto
  next
    case False
    with Cons.prems a have "map_of ps k = Some old" by simp
    then have "span old \<in> set (spans_of ps)" by (rule span_of_entry)
    with Cons.prems a have "span p' \<noteq> span old" by auto
    with False Cons a show ?thesis by auto
  qed
qed

text \<open>
  C9 (a request that repeats a pending id). When a frame from the peer has the \<open>id\<close> of
  an entry that is pending, and a method, the new entry takes the place of the old one:
  the \<open>Map\<close> keeps its size and holds the new entry under that key. The span of the entry
  that was replaced is given no status and is not ended, neither by that handler nor by
  any events that follow. The key is the \<open>id\<close> as parsed: a request whose \<open>id\<close> is the
  number \<open>n\<close> and one whose \<open>id\<close> is the string \<open>x\<close> are both pending after the two
  frames, under two keys, whatever \<open>n\<close> and \<open>x\<close> are (so for 1 and \<open>"1"\<close>).
\<close>

theorem C9_duplicate_id:
  assumes ok: "pending_ok s" and old: "map_of (pendingRequests s) k = Some old"
    and frame: "member v ''id'' = Some i" "key_of i = Some k"
               "member v ''method'' = Some m" "truthy m" "stringifies m"
    and request: "step (OnWsMessage message (Some v) now accepted) s = (s1, e1)"
    and later: "run evs s1 = (s2, e2)"
    and numeric: "member vn ''id'' = Some (JNum n)"
                 "member vn ''method'' = Some mn" "truthy mn" "stringifies mn"
    and textual: "member vx ''id'' = Some (JStr x)"
                 "member vx ''method'' = Some mx" "truthy mx" "stringifies mx"
    and both: "run [OnWsMessage message_n (Some vn) tn accepted_n,
                    OnWsMessage message_x (Some vx) tx accepted_x] s = (s3, e3)"
  shows "length (pendingRequests s1) = length (pendingRequests s) \<and>
         map_of (pendingRequests s1) k = Some \<lparr>startTime = now, method = m, span = next_span s\<rparr> \<and>
         span old \<notin> set (touched_spans (e1 @ e2)) \<and>
         map_of (pendingRequests s3) (KNum n)
           = Some \<lparr>startTime = tn, method = mn, span = next_span s\<rparr> \<and>
         map_of (pendingRequests s3) (KStr x)
           = Some \<lparr>startTime = tx, method = mx, span = Suc (next_span s)\<rparr>"
proof -
  let ?new = "\<lparr>startTime = now, method = m, span = next_span s\<rparr>"
  have s1: "s1 = fst (track_request (Some v) now s)"
    using request fst_handleIncomingMessage [of message "Some v" now accepted s] by simp
  then have q1: "pendingRequests s1 = AList.update k ?new (pendingRequests s)"
    and n1: "next_span s1 = Suc (next_span s)"
    by (simp_all add: track_request_tracked [OF frame])
  from old have "span old \<in> set (spans_of (pendingRequests s))" by (rule span_of_entry)
  with ok have lt: "span old < next_span s"
    by (auto simp: pending_ok_def list_all_iff)
  then have "span ?new \<noteq> span old" by simp
  with ok old have "span old \<notin> set (spans_of (AList.update k ?new (pendingRequests s)))"
    by (intro replaced_span_gone) (simp_all add: pending_ok_def)
  with q1 n1 lt have "abandoned (span old) s1"
    by (simp add: abandoned_def)
  then have "span old \<notin> set (touched_spans (snd (run evs s1)))"
    by (rule abandoned_run)
  with later have t2: "span old \<notin> set (touched_spans e2)" by simp
  have t1: "touched_spans e1 = []"
    using request by (auto simp: handleIncomingMessage_def split_def Let_def split: option.splits)
  have s3: "s3 = fst (track_request (Some vx) tx (fst (track_request (Some vn) tn s)))"
    using both by (simp add: split_def Let_def fst_handleIncomingMessage)
  have kn: "key_of (JNum n) = Some (KNum n)" and kx: "key_of (JStr x) = Some (KStr x)"
    by simp_all
  have 3: "map_of (pendingRequests s3) (KNum n)
             = Some \<lparr>startTime = tn, method = mn, span = next_span s\<rparr>"
    "map_of (pendingRequests s3) (KStr x)
             = Some \<lparr>startTime = tx, method = mx, span = Suc (next_span s)\<rparr>"
    unfolding s3
    by (simp_all add: track_request_tracked [OF numeric(1) kn numeric(2-)]
          track_request_tracked [OF textual(1) kx textual(2-)] update_conv')
  from t1 t2 q1 old 3 show ?thesis
    by (simp add: length_update_present update_conv')
qed

theorem C9_duplicate_id_witness:
  "pending_ok example_pending \<and>
   map_of (pendingRequests example_pending) (KNum 1)
     = Some \<lparr>startTime = 100, method = JStr ''initialize'', span = 0\<rparr> \<and>
   member duplicate_request ''id'' = Some (JNum 1) \<and>
   member duplicate_request ''method'' = Some (JStr ''session/new'') \<and>
   member textual_request ''id'' = Some (JStr ''1'') \<and>
   pendingRequests (fst (step (OnWsMessage ''again'' (Some duplicate_request) 120 True)
                           example_pending))
     = [(KNum 1, \<lparr>startTime = 120, method = JStr ''session/new'', span = 1\<rparr>)] \<and>
   touched_spans
     (snd (step (OnWsMessage ''again'' (Some duplicate_request) 120 True) example_pending) @
      snd (run [OnStdoutLine ''result'' (Some initialize_result) 130 OPEN, OnChildExit 0 OPEN]
             (fst (step (OnWsMessage ''again'' (Some duplicate_request) 120 True)
                     example_pending))))
     = [1, 1] \<and>
   pendingRequests
     (fst (run [OnWsMessage ''again'' (Some duplicate_request) 120 True,
                OnWsMessage ''text'' (Some textual_request) 125 True] example_pending))
     = [(KNum 1, \<lparr>startTime = 120, method = JStr ''session/new'', span = 1\<rparr>),
        (KStr ''1'', \<lparr>startTime = 125, method = JStr ''session/new'', span = 2\<rparr>)]"
  using C9_duplicate_id [of example_pending "KNum 1"
          "\<lparr>startTime = 100, method = JStr ''initialize'', span = 0\<rparr>"
          duplicate_request "JNum 1" "JStr ''session/new''" "''again''" 120 True
          "fst (step (OnWsMessage ''again'' (Some duplicate_request) 120 True) example_pending)"
          "snd (step (OnWsMessage ''again'' (Some duplicate_request) 120 True) example_pending)"
          "[OnStdoutLine ''result'' (Some initialize_result) 130 OPEN, OnChildExit 0 OPEN]"
          "fst (run [OnStdoutLine ''result'' (Some initialize_result) 130 OPEN, OnChildExit 0 OPEN]
             (fst (step (OnWsMessage ''again'' (Some duplicate_request) 120 True)
                     example_pending)))"
          "snd (run [OnStdoutLine ''result'' (Some initialize_result) 130 OPEN, OnChildExit 0 OPEN]
             (fst (step (OnWsMessage ''again'' (Some duplicate_request) 120 True)
                     example_pending)))"
          duplicate_request 1 "JStr ''session/new''"
          textual_request "''1''" "JStr ''session/new''"
          "''again''" 120 True "''text''" 125 True
          "fst (run [OnWsMessage ''again'' (Some duplicate_request) 120 True,
                OnWsMessage ''text'' (Some textual_request) 125 True] example_pending)"
          "snd (run [OnWsMessage ''again'' (Some duplicate_request) 120 True,
                OnWsMessage ''text'' (Some textual_request) 125 True] example_pending)"]
        pending_ok_example(2)
  by (simp add: example_pending_eq model_defs example_defs)

section \<open>Lines that resolve nothing\<close>

text \<open>
  C10 (a line that matches no pending request). When a line of the process does not
  parse, or parses to a value with no \<open>id\<close>, or with an \<open>id\<close> under which nothing is
  pending, \<open>handleOutgoingMessage\<close> leaves the whole state as it is (so the \<open>Map\<close> and
  \<open>sessionAuthenticated\<close>), counts the message, and sends the line unchanged to the
  active socket when that reads \<open>OPEN\<close>; apart from logging it does nothing else. This
  holds whatever the frame looks like, so also for a result without \<open>error\<close> whose
  \<open>id\<close> was never tracked.
\<close>

theorem C10_unmatched_line:
  "resolves parsed s = None \<Longrightarrow> handleOutgoingMessage data parsed now rs s = (s', e) \<Longrightarrow>
     s' = s \<and>
     not_log e = MessagesOut # (case activeConnection s of
                                  None \<Rightarrow> []
                                | Some ws \<Rightarrow> if rs = OPEN then [WsSend ws data] else [])"
  by (auto simp: handleOutgoingMessage_def track_response_unmatched split: option.splits)

theorem C10_unmatched_line_witness:
  "resolves (Some initialize_result) example_session = None \<and>
   resolves None example_pending = None \<and>
   handleOutgoingMessage ''result'' (Some initialize_result) 130 OPEN example_session
     = (example_session, [MessagesOut, Log LogInfo ''Message sending'', WsSend 1 ''result'']) \<and>
   \<not> sessionAuthenticated example_session \<and>
   handleOutgoingMessage ''not json'' None 130 OPEN example_pending
     = (example_pending, [MessagesOut, Log LogInfo ''Message sending'', WsSend 1 ''not json''])"
  using C10_unmatched_line [of "Some initialize_result" example_session "''result''" 130 OPEN
          example_session "[MessagesOut, Log LogInfo ''Message sending'', WsSend 1 ''result'']"]
        C10_unmatched_line [of None example_pending "''not json''" 130 OPEN
          example_pending "[MessagesOut, Log LogInfo ''Message sending'', WsSend 1 ''not json'']"]
  by (simp add: example_session_eq example_pending_eq model_defs example_defs resolves_def
        frame_key_def)

end
